theory Spec2Isabelle
  imports Main
begin

section \<open>Strings\<close>

text \<open>
  A Python \<open>str\<close> is modelled as a \<open>string\<close>, one \<open>char\<close> per code point, so the
  model covers input text with code points below 256.

  \<open>lower_char\<close> and \<open>upper_char\<close> map the ASCII letters and leave every other
  character alone. They are used where the source only asks whether case-mapped text
  contains \<open>phytozome\<close> or equals \<open>READY\<close> or \<open>EXPIRED\<close>, and for matching
  without regard to case: no character outside ASCII is mapped to a letter of these
  words, so the answers are those of \<open>str.lower\<close> and \<open>str.upper\<close>
  (\<open>py_upper_plain_word\<close> below proves it for \<open>str.upper\<close>).

  Where the source stores upper-cased text, in the \<open>file_status\<close> of a manifest row,
  the model uses \<open>py_upper\<close>, which is \<open>str.upper\<close> on every character below 256.
  Its result can leave that range (the micro sign becomes U+039C, y with diaeresis
  U+0178) and can grow (sharp s becomes SS), so it is a list of code points.
\<close>

definition lower_char :: "char \<Rightarrow> char" where
  "lower_char c =
     (let n = (of_char c :: nat) in if 65 \<le> n \<and> n \<le> 90 then char_of (n + 32) else c)"

definition upper_char :: "char \<Rightarrow> char" where
  "upper_char c =
     (let n = (of_char c :: nat) in if 97 \<le> n \<and> n \<le> 122 then char_of (n - 32) else c)"

definition str_lower :: "string \<Rightarrow> string" where
  "str_lower s = map lower_char s"

definition str_upper :: "string \<Rightarrow> string" where
  "str_upper s = map upper_char s"

type_synonym ustring = "nat list"

definition codes :: "string \<Rightarrow> ustring" where
  "codes s = map of_char s"

definition upper_codes :: "char \<Rightarrow> ustring" where
  "upper_codes c =
     (let n = (of_char c :: nat)
      in if 97 \<le> n \<and> n \<le> 122 then [n - 32]
         else if n = 181 then [924]
         else if n = 223 then [83, 83]
         else if (224 \<le> n \<and> n \<le> 246) \<or> (248 \<le> n \<and> n \<le> 254) then [n - 32]
         else if n = 255 then [376]
         else [n])"

definition py_upper :: "string \<Rightarrow> ustring" where
  "py_upper s = concat (map upper_codes s)"

text \<open>\<open>sub in s\<close>: \<open>sub\<close> occurs in \<open>s\<close> as a contiguous block.\<close>

fun starts_with :: "string \<Rightarrow> string \<Rightarrow> bool" where
  "starts_with s [] = True"
| "starts_with [] (p # ps) = False"
| "starts_with (x # xs) (p # ps) = (x = p \<and> starts_with xs ps)"

fun str_contains :: "string \<Rightarrow> string \<Rightarrow> bool" where
  "str_contains [] sub = (sub = [])"
| "str_contains (x # xs) sub = (starts_with (x # xs) sub \<or> str_contains xs sub)"

text \<open>\<open>" ".join(xs)\<close>\<close>

fun join_space :: "string list \<Rightarrow> string" where
  "join_space [] = []"
| "join_space [x] = x"
| "join_space (x # y # ys) = x @ '' '' @ join_space (y # ys)"

section \<open>The version patterns\<close>

text \<open>
  The three regular expressions of \<open>PHYTOZOME_VER_PATTERNS\<close> are built from four kinds of
  atom: a literal matched without regard to case, \<open>\s*\<close>, \<open>[_/-]*\<close> and the capturing
  group \<open>([0-9]{1,2})\<close>. \<open>re_match_here\<close> is the backtracking matcher of \<open>re\<close> on
  these atoms: a starred class and the group are greedy and give characters back when the
  rest of the pattern fails. \<open>re_search\<close> is \<open>pattern.search\<close>: the leftmost start
  position at which the pattern matches; it returns the text of group 1.
\<close>

datatype atom = Lit char | SpaceStar | SepStar | Digits12

definition is_space :: "char \<Rightarrow> bool" where
  \<comment> \<open>\<open>\s\<close> on \<open>str\<close>: tab to carriage return, FS to US, space, NEL, no-break space\<close>
  "is_space c =
     (let n = (of_char c :: nat)
      in (9 \<le> n \<and> n \<le> 13) \<or> (28 \<le> n \<and> n \<le> 32) \<or> n = 133 \<or> n = 160)"

definition is_sep :: "char \<Rightarrow> bool" where
  "is_sep c = (c = CHR ''_'' \<or> c = CHR ''/'' \<or> c = CHR ''-'')"

definition is_digit :: "char \<Rightarrow> bool" where
  "is_digit c = (let n = (of_char c :: nat) in 48 \<le> n \<and> n \<le> 57)"

fun re_match_here :: "atom list \<Rightarrow> string \<Rightarrow> string \<Rightarrow> string option" where
  "re_match_here [] s cap = Some cap"
| "re_match_here (Lit c # as) [] cap = None"
| "re_match_here (Lit c # as) (x # xs) cap =
     (if lower_char x = lower_char c then re_match_here as xs cap else None)"
| "re_match_here (SpaceStar # as) [] cap = re_match_here as [] cap"
| "re_match_here (SpaceStar # as) (x # xs) cap =
     (if is_space x
      then (case re_match_here (SpaceStar # as) xs cap of
              Some g \<Rightarrow> Some g
            | None \<Rightarrow> re_match_here as (x # xs) cap)
      else re_match_here as (x # xs) cap)"
| "re_match_here (SepStar # as) [] cap = re_match_here as [] cap"
| "re_match_here (SepStar # as) (x # xs) cap =
     (if is_sep x
      then (case re_match_here (SepStar # as) xs cap of
              Some g \<Rightarrow> Some g
            | None \<Rightarrow> re_match_here as (x # xs) cap)
      else re_match_here as (x # xs) cap)"
| "re_match_here (Digits12 # as) [] cap = None"
| "re_match_here (Digits12 # as) [x] cap =
     (if is_digit x then re_match_here as [] [x] else None)"
| "re_match_here (Digits12 # as) (x # y # ys) cap =
     (if is_digit x
      then (if is_digit y
            then (case re_match_here as ys [x, y] of
                    Some g \<Rightarrow> Some g
                  | None \<Rightarrow> re_match_here as (y # ys) [x])
            else re_match_here as (y # ys) [x])
      else None)"

fun re_search :: "atom list \<Rightarrow> string \<Rightarrow> string option" where
  "re_search p [] = re_match_here p [] []"
| "re_search p (x # xs) =
     (case re_match_here p (x # xs) [] of
        Some g \<Rightarrow> Some g
      | None \<Rightarrow> re_search p xs)"

definition PHYTOZOME_VER_PATTERNS :: "atom list list" where
  "PHYTOZOME_VER_PATTERNS =
     [ map Lit ''phytozomev'' @ [SpaceStar, Digits12],
       map Lit ''phytozome'' @ [SpaceStar, SepStar, SpaceStar, Lit CHR ''v'', SpaceStar, Digits12],
       map Lit ''phytozome'' @ [SpaceStar, Digits12] ]"

text \<open>\<open>int(m.group(1))\<close>, with \<open>ValueError\<close> as \<open>None\<close>.\<close>

definition digit_val :: "char \<Rightarrow> int" where
  "digit_val c = int (of_char c) - 48"

definition parse_int :: "string \<Rightarrow> int option" where
  "parse_int g =
     (if g \<noteq> [] \<and> list_all is_digit g
      then Some (foldl (\<lambda>acc c. 10 * acc + digit_val c) 0 g)
      else None)"

fun first_match :: "atom list list \<Rightarrow> string \<Rightarrow> int option" where
  "first_match [] s = None"
| "first_match (pat # pats) s =
     (case re_search pat s of
        Some g \<Rightarrow> parse_int g
      | None \<Rightarrow> first_match pats s)"

definition extract_phytozome_version :: "string \<Rightarrow> int option" where
  "extract_phytozome_version text = first_match PHYTOZOME_VER_PATTERNS text"


section \<open>Search responses\<close>

text \<open>
  The value \<open>json.loads\<close> returns. \<open>JNull\<close> is Python's \<open>None\<close>, which is also what
  \<open>dict.get\<close> gives for a missing key. A dictionary is the list of its items in
  insertion order; its keys are distinct. Numbers are the integers: a float is never
  read by the source except for its truth value.
\<close>

datatype json =
    JNull
  | JBool bool
  | JNum int
  | JStr string
  | JList "json list"
  | JDict "(string \<times> json) list"

fun truthy :: "json \<Rightarrow> bool" where
  "truthy JNull = False"
| "truthy (JBool b) = b"
| "truthy (JNum n) = (n \<noteq> 0)"
| "truthy (JStr s) = (s \<noteq> [])"
| "truthy (JList xs) = (xs \<noteq> [])"
| "truthy (JDict kvs) = (kvs \<noteq> [])"

definition get :: "(string \<times> json) list \<Rightarrow> string \<Rightarrow> json" where
  "get d k = (case map_of d k of None \<Rightarrow> JNull | Some v \<Rightarrow> v)"

definition py_or :: "json \<Rightarrow> json \<Rightarrow> json" where
  "py_or a b = (if truthy a then a else b)"

datatype error =
    AttributeError
  | TypeError
  | RecursionError
  | NonStringField

text \<open>
  \<open>AttributeError\<close>: \<open>.get\<close> or \<open>.upper\<close> on a value that has none.
  \<open>TypeError\<close>: iterating a number or a boolean, \<open>fnmatch\<close> or \<open>str.join\<close> on a
  value that is not a string.
  \<open>RecursionError\<close>: a call nested deeper than the interpreter's stack allows.
  \<open>NonStringField\<close>: a true value that is not a string under \<open>id\<close>, \<open>_id\<close> or
  \<open>file_name\<close>. The source declares identifiers and names as \<open>str\<close>; what Python
  does with other values as dictionary keys (hashing, \<open>True == 1\<close>) is outside the
  model, which stops there.
\<close>

text \<open>\<open>for x in (v or [])\<close>: the elements the loop visits.\<close>

definition iter_or_empty :: "json \<Rightarrow> error + json list" where
  "iter_or_empty v =
     (if \<not> truthy v then Inr []
      else case v of
        JList xs \<Rightarrow> Inr xs
      | JDict kvs \<Rightarrow> Inr (map (\<lambda>kv. JStr (fst kv)) kvs)
      | JStr s \<Rightarrow> Inr (map (\<lambda>c. JStr [c]) s)
      | _ \<Rightarrow> Inl TypeError)"

section \<open>Harvesting strings\<close>

fun collect_strings :: "json \<Rightarrow> string list \<Rightarrow> nat \<Rightarrow> string list"
and collect_items :: "(string \<times> json) list \<Rightarrow> string list \<Rightarrow> nat \<Rightarrow> string list"
and collect_elems :: "json list \<Rightarrow> string list \<Rightarrow> nat \<Rightarrow> string list" where
  "collect_strings obj out max_strings =
     (if length out \<ge> max_strings then out
      else case obj of
        JStr s \<Rightarrow> out @ [s]
      | JDict kvs \<Rightarrow> collect_items kvs out max_strings
      | JList vs \<Rightarrow> collect_elems vs out max_strings
      | _ \<Rightarrow> out)"
| "collect_items [] out max_strings = out"
| "collect_items (kv # kvs) out max_strings =
     (if length out \<ge> max_strings then out
      else collect_items kvs
             (collect_strings (snd kv) (out @ [fst kv]) max_strings) max_strings)"
| "collect_elems [] out max_strings = out"
| "collect_elems (v # vs) out max_strings =
     (if length out \<ge> max_strings then out
      else collect_elems vs (collect_strings v out max_strings) max_strings)"

definition has_marker :: "string \<Rightarrow> bool" where
  "has_marker s = str_contains (str_lower s) ''phytozome''"

text \<open>
  The list \<open>strings\<close> of \<open>build_version_haystack\<close> for a file object whose name is a
  string (or missing): the name first when it is not empty, then the harvest.
\<close>

definition harvest :: "(string \<times> json) list \<Rightarrow> string \<Rightarrow> string list" where
  "harvest file_obj fname =
     collect_strings (JDict file_obj) (if fname \<noteq> [] then [fname] else []) 2000"

definition choose_strings :: "string list \<Rightarrow> string list" where
  "choose_strings strings =
     (let phytozome_strings = filter has_marker strings
      in if phytozome_strings \<noteq> [] then phytozome_strings else strings)"

text \<open>
  When the name is a true value that is not a string, it takes the first place of
  \<open>strings\<close>, leaving room for 1999 harvested strings; it is dropped from the marker
  list by the \<open>isinstance\<close> test, and \<open>join\<close> raises on it when the full list is chosen.
\<close>

definition build_version_haystack :: "(string \<times> json) list \<Rightarrow> error + string" where
  "build_version_haystack file_obj =
     (case py_or (get file_obj ''file_name'') (JStr []) of
        JStr fname \<Rightarrow>
          Inr (take 200000 (join_space (choose_strings (harvest file_obj fname))))
      | _ \<Rightarrow>
          (let phytozome_strings =
                 filter has_marker (collect_strings (JDict file_obj) [] 1999)
           in if phytozome_strings \<noteq> []
              then Inr (take 200000 (join_space phytozome_strings))
              else Inl TypeError))"

text \<open>
  Lines 238 and 239 of \<open>parse_search\<close>: the detection for one file object.
\<close>

definition detect_version :: "(string \<times> json) list \<Rightarrow> error + int option" where
  "detect_version file_obj =
     (case build_version_haystack file_obj of
        Inl e \<Rightarrow> Inl e
      | Inr haystack \<Rightarrow> Inr (extract_phytozome_version haystack))"

section \<open>Harvesting on the interpreter's stack\<close>

text \<open>
  \<open>collect_strings\<close> above is the value of the traversal when it runs to its end. The
  source is a recursive Python function, and every nested call takes a frame of the
  interpreter's stack: a call that finds no frame left raises \<open>RecursionError\<close>. The
  functions below are the same traversal with the stack made explicit. \<open>frames\<close> is the
  number of nested calls of \<open>collect_strings\<close> that the interpreter still allows when
  \<open>build_version_haystack\<close> calls it; CPython allows 1000 frames in all by default, so
  \<open>frames\<close> is below 1000 there. The loops over the items of a dictionary and the
  elements of a list run inside the frame of their call.
\<close>

fun collect_strings_stack :: "nat \<Rightarrow> json \<Rightarrow> string list \<Rightarrow> nat \<Rightarrow> error + string list"
and collect_items_stack :: "nat \<Rightarrow> (string \<times> json) list \<Rightarrow> string list \<Rightarrow> nat \<Rightarrow> error + string list"
and collect_elems_stack :: "nat \<Rightarrow> json list \<Rightarrow> string list \<Rightarrow> nat \<Rightarrow> error + string list" where
  "collect_strings_stack frames obj out max_strings =
     (if frames = 0 then Inl RecursionError
      else if length out \<ge> max_strings then Inr out
      else case obj of
        JStr s \<Rightarrow> Inr (out @ [s])
      | JDict kvs \<Rightarrow> collect_items_stack (frames - 1) kvs out max_strings
      | JList vs \<Rightarrow> collect_elems_stack (frames - 1) vs out max_strings
      | _ \<Rightarrow> Inr out)"
| "collect_items_stack frames [] out max_strings = Inr out"
| "collect_items_stack frames (kv # kvs) out max_strings =
     (if length out \<ge> max_strings then Inr out
      else case collect_strings_stack frames (snd kv) (out @ [fst kv]) max_strings of
        Inl e \<Rightarrow> Inl e
      | Inr out' \<Rightarrow> collect_items_stack frames kvs out' max_strings)"
| "collect_elems_stack frames [] out max_strings = Inr out"
| "collect_elems_stack frames (v # vs) out max_strings =
     (if length out \<ge> max_strings then Inr out
      else case collect_strings_stack frames v out max_strings of
        Inl e \<Rightarrow> Inl e
      | Inr out' \<Rightarrow> collect_elems_stack frames vs out' max_strings)"

text \<open>
  The number of frames a traversal of \<open>obj\<close> to its end needs: its nesting depth, a
  scalar counting 1.
\<close>

fun call_depth :: "json \<Rightarrow> nat"
and call_depth_items :: "(string \<times> json) list \<Rightarrow> nat"
and call_depth_elems :: "json list \<Rightarrow> nat" where
  "call_depth (JDict kvs) = Suc (call_depth_items kvs)"
| "call_depth (JList vs) = Suc (call_depth_elems vs)"
| "call_depth JNull = 1"
| "call_depth (JBool b) = 1"
| "call_depth (JNum n) = 1"
| "call_depth (JStr s) = 1"
| "call_depth_items [] = 0"
| "call_depth_items (kv # kvs) = max (call_depth (snd kv)) (call_depth_items kvs)"
| "call_depth_elems [] = 0"
| "call_depth_elems (v # vs) = max (call_depth v) (call_depth_elems vs)"

definition harvest_stack :: "nat \<Rightarrow> (string \<times> json) list \<Rightarrow> string \<Rightarrow> error + string list" where
  "harvest_stack frames file_obj fname =
     collect_strings_stack frames (JDict file_obj) (if fname \<noteq> [] then [fname] else []) 2000"

definition build_version_haystack_stack :: "nat \<Rightarrow> (string \<times> json) list \<Rightarrow> error + string" where
  "build_version_haystack_stack frames file_obj =
     (case py_or (get file_obj ''file_name'') (JStr []) of
        JStr fname \<Rightarrow>
          (case harvest_stack frames file_obj fname of
             Inl e \<Rightarrow> Inl e
           | Inr strings \<Rightarrow> Inr (take 200000 (join_space (choose_strings strings))))
      | _ \<Rightarrow>
          (case collect_strings_stack frames (JDict file_obj) [] 1999 of
             Inl e \<Rightarrow> Inl e
           | Inr strings \<Rightarrow>
               (let phytozome_strings = filter has_marker strings
                in if phytozome_strings \<noteq> []
                   then Inr (take 200000 (join_space phytozome_strings))
                   else Inl TypeError)))"

definition detect_version_stack :: "nat \<Rightarrow> (string \<times> json) list \<Rightarrow> error + int option" where
  "detect_version_stack frames file_obj =
     (case build_version_haystack_stack frames file_obj of
        Inl e \<Rightarrow> Inl e
      | Inr haystack \<Rightarrow> Inr (extract_phytozome_version haystack))"

section \<open>Parsing and selection\<close>

record row =
  dataset_id :: string
  file_id :: string
  file_name :: string
  file_status :: ustring
  phytozome_version :: "int option"
  selected :: bool

text \<open>
  \<open>phytozome_version\<close> is the detected integer, or \<open>None\<close> for the empty string the
  source stores when nothing was detected.

  \<open>fnmatch.fnmatch\<close> belongs to Python's library and is a parameter \<open>fnm\<close> of the
  model (file name first, pattern second). \<open>fnmatch_glob\<close> below is its behaviour on
  patterns made of literal characters, \<open>*\<close> and \<open>?\<close>.
\<close>

fun glob_match :: "string \<Rightarrow> string \<Rightarrow> bool" where
  "glob_match [] s = (s = [])"
| "glob_match (p # ps) [] = (p = CHR ''*'' \<and> glob_match ps [])"
| "glob_match (p # ps) (x # xs) =
     (if p = CHR ''*'' then glob_match ps (x # xs) \<or> glob_match (p # ps) xs
      else (p = CHR ''?'' \<or> p = x) \<and> glob_match ps xs)"

definition fnmatch_glob :: "string \<Rightarrow> string \<Rightarrow> bool" where
  "fnmatch_glob filename pat = glob_match pat filename"

definition matches_any_glob :: "(string \<Rightarrow> string \<Rightarrow> bool) \<Rightarrow> string \<Rightarrow> string list \<Rightarrow> bool" where
  "matches_any_glob fnm filename globs = list_ex (\<lambda>g. fnm filename g) globs"

text \<open>Lines 230 to 235 of the source: the include/exclude decision for one file name.\<close>

definition glob_selected ::
  "(string \<Rightarrow> string \<Rightarrow> bool) \<Rightarrow> string \<Rightarrow> string list \<Rightarrow> string list \<Rightarrow> bool" where
  "glob_selected fnm fname include_globs exclude_globs =
     (let selected = (if include_globs \<noteq> [] then matches_any_glob fnm fname include_globs else True)
      in if selected \<and> exclude_globs \<noteq> []
         then (if matches_any_glob fnm fname exclude_globs then False else selected)
         else selected)"

text \<open>
  A selection map is a Python \<open>dict\<close> from dataset identifier to a list of file
  identifiers, kept as the list of its items in insertion order.
  \<open>setdefault_append m k v\<close> is \<open>m.setdefault(k, []).append(v)\<close>.
\<close>

type_synonym idmap = "(string \<times> string list) list"

fun setdefault_append :: "idmap \<Rightarrow> string \<Rightarrow> string \<Rightarrow> idmap" where
  "setdefault_append [] k v = [(k, [v])]"
| "setdefault_append ((k', vs) # m) k v =
     (if k' = k then (k', vs @ [v]) # m else (k', vs) # setdefault_append m k v)"

fun dedup_from :: "'a set \<Rightarrow> 'a list \<Rightarrow> 'a list" where
  "dedup_from seen [] = []"
| "dedup_from seen (x # xs) =
     (if x \<notin> seen then x # dedup_from (insert x seen) xs else dedup_from seen xs)"

definition dedup :: "'a list \<Rightarrow> 'a list" where
  "dedup xs = dedup_from {} xs"

definition dedup_values :: "idmap \<Rightarrow> idmap" where
  "dedup_values m = map (\<lambda>kv. (fst kv, dedup (snd kv))) m"

type_synonym pstate = "row list \<times> idmap \<times> idmap"

text \<open>The body of the inner loop of \<open>parse_search\<close>, for one element of \<open>files\<close>.\<close>

definition parse_file ::
  "(string \<Rightarrow> string \<Rightarrow> bool) \<Rightarrow> string list \<Rightarrow> string list \<Rightarrow> string \<Rightarrow> json \<Rightarrow> pstate
   \<Rightarrow> error + pstate" where
  "parse_file fnm include_globs exclude_globs ds f st =
     (case f of
        JDict fd \<Rightarrow>
          (let fid = get fd ''_id'';
               fname = py_or (get fd ''file_name'') (JStr [])
           in case py_or (get fd ''file_status'') (JStr []) of
                JStr raw_status \<Rightarrow>
                  (let status = py_upper raw_status
                   in if \<not> truthy fid \<or> \<not> truthy fname then Inr st
                      else case (fid, fname) of
                        (JStr fid_s, JStr fname_s) \<Rightarrow>
                          (let sel = glob_selected fnm fname_s include_globs exclude_globs
                           in case build_version_haystack fd of
                                Inl e \<Rightarrow> Inl e
                              | Inr haystack \<Rightarrow>
                                  (let pver = extract_phytozome_version haystack;
                                       r = \<lparr> dataset_id = ds, file_id = fid_s,
                                             file_name = fname_s, file_status = status,
                                             phytozome_version = pver, selected = sel \<rparr>;
                                       rows = fst st @ [r]
                                   in if \<not> sel then Inr (rows, snd st)
                                      else Inr (rows,
                                             setdefault_append (fst (snd st)) ds fid_s,
                                             (if status = codes ''PURGED''
                                              then setdefault_append (snd (snd st)) ds fid_s
                                              else snd (snd st)))))
                      | _ \<Rightarrow> Inl NonStringField)
              | _ \<Rightarrow> Inl AttributeError)
      | _ \<Rightarrow> Inl AttributeError)"

fun parse_files ::
  "(string \<Rightarrow> string \<Rightarrow> bool) \<Rightarrow> string list \<Rightarrow> string list \<Rightarrow> string \<Rightarrow> json list \<Rightarrow> pstate
   \<Rightarrow> error + pstate" where
  "parse_files fnm inc exc ds [] st = Inr st"
| "parse_files fnm inc exc ds (f # fs) st =
     (case parse_file fnm inc exc ds f st of
        Inl e \<Rightarrow> Inl e
      | Inr st' \<Rightarrow> parse_files fnm inc exc ds fs st')"

text \<open>The body of the outer loop, for one element of \<open>organisms\<close>.\<close>

definition parse_org ::
  "(string \<Rightarrow> string \<Rightarrow> bool) \<Rightarrow> string list \<Rightarrow> string list \<Rightarrow> json \<Rightarrow> pstate
   \<Rightarrow> error + pstate" where
  "parse_org fnm inc exc org st =
     (case org of
        JDict od \<Rightarrow>
          (let dataset_id = get od ''id''
           in if \<not> truthy dataset_id then Inr st
              else case iter_or_empty (get od ''files'') of
                Inl e \<Rightarrow> Inl e
              | Inr files \<Rightarrow>
                  (case dataset_id of
                     JStr ds \<Rightarrow> parse_files fnm inc exc ds files st
                   | _ \<Rightarrow> Inl NonStringField))
      | _ \<Rightarrow> Inl AttributeError)"

fun parse_orgs ::
  "(string \<Rightarrow> string \<Rightarrow> bool) \<Rightarrow> string list \<Rightarrow> string list \<Rightarrow> json list \<Rightarrow> pstate
   \<Rightarrow> error + pstate" where
  "parse_orgs fnm inc exc [] st = Inr st"
| "parse_orgs fnm inc exc (org # orgs) st =
     (case parse_org fnm inc exc org st of
        Inl e \<Rightarrow> Inl e
      | Inr st' \<Rightarrow> parse_orgs fnm inc exc orgs st')"

definition parse_search ::
  "(string \<Rightarrow> string \<Rightarrow> bool) \<Rightarrow> json \<Rightarrow> string list \<Rightarrow> string list \<Rightarrow> error + pstate" where
  "parse_search fnm search_json include_globs exclude_globs =
     (case search_json of
        JDict sd \<Rightarrow>
          (case iter_or_empty (get sd ''organisms'') of
             Inl e \<Rightarrow> Inl e
           | Inr organisms \<Rightarrow>
               (case parse_orgs fnm include_globs exclude_globs organisms ([], [], []) of
                  Inl e \<Rightarrow> Inl e
                | Inr st \<Rightarrow>
                    Inr (fst st, dedup_values (fst (snd st)), dedup_values (snd (snd st)))))
      | _ \<Rightarrow> Inl AttributeError)"

section \<open>Latest-only refinement\<close>

definition selected_versions :: "row list \<Rightarrow> int list" where
  "selected_versions manifest_rows =
     concat (map (\<lambda>r. if selected r then (case phytozome_version r of
                                             Some v \<Rightarrow> [v] | None \<Rightarrow> [])
                       else []) manifest_rows)"

definition apply_latest_only :: "row list \<Rightarrow> row list" where
  "apply_latest_only manifest_rows =
     (case selected_versions manifest_rows of
        [] \<Rightarrow> manifest_rows
      | v # vs \<Rightarrow>
          (let max_ver = fold max vs v
           in map (\<lambda>r. if \<not> selected r then r
                        else case phytozome_version r of
                          None \<Rightarrow> r\<lparr>selected := False\<rparr>
                        | Some w \<Rightarrow> if w \<noteq> max_ver then r\<lparr>selected := False\<rparr> else r)
                  manifest_rows))"

definition rebuild_step :: "row \<Rightarrow> idmap \<times> idmap \<Rightarrow> idmap \<times> idmap" where
  "rebuild_step r maps =
     (if \<not> selected r then maps
      else (setdefault_append (fst maps) (dataset_id r) (file_id r),
            (if file_status r = codes ''PURGED''
             then setdefault_append (snd maps) (dataset_id r) (file_id r)
             else snd maps)))"

definition rebuild_selected_maps :: "row list \<Rightarrow> idmap \<times> idmap" where
  "rebuild_selected_maps manifest_rows =
     (let maps = fold rebuild_step manifest_rows ([], [])
      in (dedup_values (fst maps), dedup_values (snd maps)))"

text \<open>
  Step 3 of \<open>main\<close> under \<open>--latest-only\<close>: the refinement, the rebuilt maps, and
  whether the warning "latest-only had no effect" is printed (the sorted set of the
  versions of the selected rows is empty).
\<close>

definition latest_only_step :: "row list \<Rightarrow> row list \<times> (idmap \<times> idmap) \<times> bool" where
  "latest_only_step manifest_rows =
     (let rows' = apply_latest_only manifest_rows;
          maps = rebuild_selected_maps rows';
          versions = sorted_list_of_set (set (selected_versions rows'))
      in (rows', maps, versions = []))"

section \<open>Restore polling\<close>

datatype restore_result =
    NotNeeded
  | Ready
  | Expired
  | TimedOut
  | MissingStatusUrl
  | SleepValueError

text \<open>
  \<open>remote n\<close> is the status token of the response to poll number \<open>n\<close> (from 0), after
  \<open>or ""\<close>. The loop returns how it ended, the number of polls it made and the seconds
  it waited. The upper-cased token is only compared with \<open>READY\<close> and \<open>EXPIRED\<close>,
  where \<open>str_upper\<close> answers as \<open>str.upper\<close> does (\<open>poll_tokens_agree\<close> below).
  \<open>time.sleep\<close> raises \<open>ValueError\<close> on a negative argument. The loop need
  not end (a poll interval of 0 with a remote that never becomes ready), so its value is
  an option and \<open>None\<close> stands for running forever.
\<close>

partial_function (option) poll_loop ::
  "(nat \<Rightarrow> string) \<Rightarrow> int \<Rightarrow> int \<Rightarrow> nat \<Rightarrow> int \<Rightarrow> (restore_result \<times> nat \<times> int) option" where
  "poll_loop remote poll_seconds max_wait_seconds n waited =
     (if str_upper (remote n) = ''READY'' then Some (Ready, n + 1, waited)
      else if str_upper (remote n) = ''EXPIRED'' then Some (Expired, n + 1, waited)
      else if poll_seconds < 0 then Some (SleepValueError, n + 1, waited)
      else if waited + poll_seconds \<ge> max_wait_seconds
           then Some (TimedOut, n + 1, waited + poll_seconds)
      else poll_loop remote poll_seconds max_wait_seconds (n + 1) (waited + poll_seconds))"

definition ensure_restored ::
  "idmap \<Rightarrow> string option \<Rightarrow> (nat \<Rightarrow> string) \<Rightarrow> int \<Rightarrow> int
   \<Rightarrow> (restore_result \<times> nat \<times> int) option" where
  "ensure_restored purged_by_dataset status_url remote poll_seconds max_wait_seconds =
     (if purged_by_dataset = [] then Some (NotNeeded, 0, 0)
      else case status_url of
        None \<Rightarrow> Some (MissingStatusUrl, 0, 0)
      | Some u \<Rightarrow> poll_loop remote poll_seconds max_wait_seconds 0 0)"

section \<open>What a selection map should hold\<close>

text \<open>
  The file identifiers of the rows of dataset \<open>ds\<close> that satisfy \<open>P\<close>, in manifest
  order. The claims about the selection maps are stated against this list.
\<close>

definition ids_of :: "(row \<Rightarrow> bool) \<Rightarrow> row list \<Rightarrow> string \<Rightarrow> string list" where
  "ids_of P rows ds = map file_id (filter (\<lambda>r. P r \<and> dataset_id r = ds) rows)"

section \<open>Sample inputs\<close>

text \<open>
  One dataset with four file entries: release 12 (live), release 13 (purged, the status
  in lower case), an entry without identifier, and the release 13 entry once more.
\<close>

definition sample_v12 :: "(string \<times> json) list" where
  "sample_v12 =
     [(''_id'', JStr ''f12''), (''file_name'', JStr ''x.gff3.gz''),
      (''file_status'', JStr ''LIVE''),
      (''metadata'', JDict [(''path'', JStr ''Phytozome/PhytozomeV12/x'')])]"

definition sample_v13 :: "(string \<times> json) list" where
  "sample_v13 =
     [(''_id'', JStr ''f13''), (''file_name'', JStr ''x.gff.gz''),
      (''file_status'', JStr ''purged''),
      (''metadata'', JDict [(''path'', JStr ''Phytozome/PhytozomeV13/x'')])]"

definition sample_no_id :: "(string \<times> json) list" where
  "sample_no_id = [(''_id'', JStr []), (''file_name'', JStr ''y.gff.gz'')]"

definition sample_files :: "json list" where
  "sample_files = [JDict sample_v12, JDict sample_v13, JDict sample_no_id, JDict sample_v13]"

definition sample_org :: "(string \<times> json) list" where
  "sample_org = [(''id'', JStr ''ds1''), (''files'', JList sample_files)]"

definition sample_response :: json where
  "sample_response = JDict [(''organisms'', JList [JDict sample_org])]"

definition sample_row_v12 :: row where
  "sample_row_v12 =
     \<lparr> dataset_id = ''ds1'', file_id = ''f12'', file_name = ''x.gff3.gz'',
       file_status = codes ''LIVE'', phytozome_version = Some 12, selected = True \<rparr>"

definition sample_row_v13 :: row where
  "sample_row_v13 =
     \<lparr> dataset_id = ''ds1'', file_id = ''f13'', file_name = ''x.gff.gz'',
       file_status = codes ''PURGED'', phytozome_version = Some 13, selected = True \<rparr>"

definition sample_rows :: "row list" where
  "sample_rows = [sample_row_v12, sample_row_v13, sample_row_v13]"

text \<open>
  Four selected rows with detected versions 11, 12, 13 and none, and two selected rows
  without a detected version.
\<close>

definition version_row :: "string \<Rightarrow> int option \<Rightarrow> bool \<Rightarrow> row" where
  "version_row fid v s =
     \<lparr> dataset_id = ''ds1'', file_id = fid, file_name = ''x.gff3.gz'',
       file_status = codes ''LIVE'', phytozome_version = v, selected = s \<rparr>"

definition versioned_rows :: "row list" where
  "versioned_rows =
     [version_row ''a'' (Some 11) True, version_row ''b'' (Some 12) True,
      version_row ''c'' (Some 13) True, version_row ''d'' None True]"

definition unversioned_rows :: "row list" where
  "unversioned_rows = [version_row ''a'' None True, version_row ''b'' None True]"


text \<open>Three remotes: ready at the third poll, expired at the second, never ready.\<close>

definition remote_ready_third :: "nat \<Rightarrow> string" where
  "remote_ready_third n = (if n < 2 then ''PENDING'' else ''READY'')"

definition remote_expired_second :: "nat \<Rightarrow> string" where
  "remote_expired_second n = (if n < 1 then ''pending'' else ''expired'')"

definition remote_pending :: "nat \<Rightarrow> string" where
  "remote_pending n = ''PENDING''"

text \<open>
  \<open>nested k\<close> is \<open>k + 1\<close> lists inside one another. \<open>deep_file\<close> holds such a value,
  \<open>numeric_name_file\<close> has a number as its name, and the status of \<open>accent_file\<close> ends
  in a small e with acute accent.
\<close>

fun nested :: "nat \<Rightarrow> json" where
  "nested 0 = JList []"
| "nested (Suc k) = JList [nested k]"

definition deep_file :: "(string \<times> json) list" where
  "deep_file =
     [(''_id'', JStr ''f1''), (''file_name'', JStr ''x.gff3.gz''), (''deep'', nested 1000)]"

definition numeric_name_file :: "(string \<times> json) list" where
  "numeric_name_file = [(''_id'', JStr ''f1''), (''file_name'', JNum 7)]"

definition accent_file :: "(string \<times> json) list" where
  "accent_file =
     [(''_id'', JStr ''f9''), (''file_name'', JStr ''z.gff.gz''),
      (''file_status'', JStr [CHR ''p'', CHR ''u'', CHR ''r'', CHR ''g'', CHR 0xE9])]"

definition accent_row :: row where
  "accent_row =
     \<lparr> dataset_id = ''ds1'', file_id = ''f9'', file_name = ''z.gff.gz'',
       file_status = [80, 85, 82, 71, 201], phytozome_version = None, selected = True \<rparr>"

section \<open>Facts about de-duplication\<close>

lemma set_dedup_from: "set (dedup_from seen xs) = set xs - seen"
  by (induction xs arbitrary: seen) auto

lemma distinct_dedup_from: "distinct (dedup_from seen xs)"
  by (induction xs arbitrary: seen) (auto simp: set_dedup_from)

lemma dedup_from_distinct:
  "distinct xs \<Longrightarrow> set xs \<inter> seen = {} \<Longrightarrow> dedup_from seen xs = xs"
  by (induction xs arbitrary: seen) auto

lemma dedup_from_snoc:
  "dedup_from seen (xs @ [x]) =
     (if x \<in> seen \<or> x \<in> set xs then dedup_from seen xs else dedup_from seen xs @ [x])"
  by (induction xs arbitrary: seen) auto

lemma dedup_snoc: "dedup (xs @ [x]) = (if x \<in> set xs then dedup xs else dedup xs @ [x])"
  by (simp add: dedup_def dedup_from_snoc)

lemma set_dedup: "set (dedup xs) = set xs"
  by (simp add: dedup_def set_dedup_from)

lemma distinct_dedup: "distinct (dedup xs)"
  by (simp add: dedup_def distinct_dedup_from)

lemma dedup_distinct_id: "distinct xs \<Longrightarrow> dedup xs = xs"
  by (simp add: dedup_def dedup_from_distinct)

lemma dedup_first_seen:
  "dedup xs = map (\<lambda>i. xs ! i) (filter (\<lambda>i. xs ! i \<notin> set (take i xs)) [0..<length xs])"
proof (induction xs rule: rev_induct)
  case Nil
  then show ?case by (simp add: dedup_def)
next
  case (snoc x xs)
  have f: "filter (\<lambda>i. (xs @ [x]) ! i \<notin> set (take i (xs @ [x]))) [0..<length xs]
         = filter (\<lambda>i. xs ! i \<notin> set (take i xs)) [0..<length xs]"
    by (rule filter_cong) (auto simp: nth_append)
  have m: "map (\<lambda>i. (xs @ [x]) ! i) (filter (\<lambda>i. xs ! i \<notin> set (take i xs)) [0..<length xs])
         = map (\<lambda>i. xs ! i) (filter (\<lambda>i. xs ! i \<notin> set (take i xs)) [0..<length xs])"
    by (rule map_cong) (auto simp: nth_append)
  show ?case
    using snoc.IH f m by (simp add: dedup_snoc)
qed

section \<open>Facts about selection maps and the parser\<close>

lemma map_of_setdefault_append:
  "map_of (setdefault_append m k v) k' =
     (if k' = k then Some (case map_of m k of None \<Rightarrow> [v] | Some vs \<Rightarrow> vs @ [v])
      else map_of m k')"
  by (induction m k v rule: setdefault_append.induct) auto

lemma keys_setdefault_append:
  "map fst (setdefault_append m k v) = (if k \<in> fst ` set m then map fst m else map fst m @ [k])"
  by (induction m k v rule: setdefault_append.induct) (auto simp: image_iff)

lemma distinct_keys_setdefault_append:
  "distinct (map fst m) \<Longrightarrow> distinct (map fst (setdefault_append m k v))"
  by (simp add: keys_setdefault_append)

lemma map_of_dedup_values: "map_of (dedup_values m) k = map_option dedup (map_of m k)"
  by (induction m) (auto simp: dedup_values_def)

lemma keys_dedup_values: "map fst (dedup_values m) = map fst m"
  by (simp add: dedup_values_def comp_def)

lemma fold_snoc: "fold f (xs @ [x]) s = f x (fold f xs s)"
  by simp

lemma fst_fold_rebuild:
  "map_of (fst (fold rebuild_step rows ([], []))) ds =
     (if ids_of selected rows ds = [] then None else Some (ids_of selected rows ds))"
proof (induction rows rule: rev_induct)
  case Nil
  then show ?case by (simp add: ids_of_def)
next
  case (snoc r rows)
  then show ?case
    by (auto simp: rebuild_step_def map_of_setdefault_append ids_of_def split: option.splits)
qed

lemma snd_fold_rebuild:
  "map_of (snd (fold rebuild_step rows ([], []))) ds =
     (if ids_of (\<lambda>r. selected r \<and> file_status r = codes ''PURGED'') rows ds = [] then None
      else Some (ids_of (\<lambda>r. selected r \<and> file_status r = codes ''PURGED'') rows ds))"
proof (induction rows rule: rev_induct)
  case Nil
  then show ?case by (simp add: ids_of_def)
next
  case (snoc r rows)
  then show ?case
    by (auto simp: rebuild_step_def map_of_setdefault_append ids_of_def split: option.splits)
qed

lemma distinct_keys_fold_rebuild:
  "distinct (map fst (fst (fold rebuild_step rows ([], [])))) \<and>
   distinct (map fst (snd (fold rebuild_step rows ([], []))))"
proof (induction rows rule: rev_induct)
  case Nil
  then show ?case by simp
next
  case (snoc r rows)
  then show ?case
    by (simp add: rebuild_step_def distinct_keys_setdefault_append)
qed

lemma parse_file_result:
  assumes "parse_file fnm inc exc ds f st = Inr st'"
  shows "st' = st \<or>
         (\<exists>r. st' = (fst st @ [r], rebuild_step r (snd st)) \<and>
              dataset_id r = ds \<and> file_id r \<noteq> [] \<and> file_name r \<noteq> [] \<and>
              selected r = glob_selected fnm (file_name r) inc exc \<and>
              (\<exists>fd raw. f = JDict fd \<and> get fd ''_id'' = JStr (file_id r) \<and>
                   get fd ''file_name'' = JStr (file_name r) \<and>
                   py_or (get fd ''file_status'') (JStr []) = JStr raw \<and>
                   file_status r = py_upper raw \<and>
                   (\<exists>h. build_version_haystack fd = Inr h \<and>
                        phytozome_version r = extract_phytozome_version h)))"
proof -
  obtain fd where f: "f = JDict fd"
    using assms by (cases f) (simp_all add: parse_file_def)
  obtain raw where raw: "py_or (get fd ''file_status'') (JStr []) = JStr raw"
    using assms f by (cases "py_or (get fd ''file_status'') (JStr [])") (simp_all add: parse_file_def Let_def)
  show ?thesis
  proof (cases "\<not> truthy (get fd ''_id'') \<or> \<not> truthy (py_or (get fd ''file_name'') (JStr []))")
    case True
    then have "st' = st"
      using assms f raw by (simp add: parse_file_def Let_def)
    then show ?thesis by simp
  next
    case False
    then have t1: "truthy (get fd ''_id'')" and t2: "truthy (py_or (get fd ''file_name'') (JStr []))"
      by simp_all
    from t2 have t3: "truthy (get fd ''file_name'')" and pn: "py_or (get fd ''file_name'') (JStr []) = get fd ''file_name''"
      by (auto simp: py_or_def split: if_splits)
    obtain fid_s where fid: "get fd ''_id'' = JStr fid_s"
      using assms f raw t1 t2 by (cases "get fd ''_id''") (simp_all add: parse_file_def Let_def)
    obtain fname_s where fname: "get fd ''file_name'' = JStr fname_s"
      using assms f raw t1 t3 pn fid by (cases "get fd ''file_name''") (simp_all add: parse_file_def Let_def)
    obtain h where h: "build_version_haystack fd = Inr h"
      using assms f raw t1 t3 pn fid fname
      by (cases "build_version_haystack fd") (simp_all add: parse_file_def Let_def)
    define r where "r = \<lparr> dataset_id = ds, file_id = fid_s, file_name = fname_s,
                          file_status = py_upper raw,
                          phytozome_version = extract_phytozome_version h,
                          selected = glob_selected fnm fname_s inc exc \<rparr>"
    have "st' = (fst st @ [r], rebuild_step r (snd st))"
      using assms f raw t1 t3 pn fid fname h
      by (auto simp add: parse_file_def r_def rebuild_step_def Let_def split: if_splits)
    moreover have "file_id r \<noteq> []" "file_name r \<noteq> []"
      using t1 t3 fid fname by (simp_all add: r_def)
    ultimately show ?thesis
      using f raw fid fname h by (intro disjI2 exI [of _ r]) (simp add: r_def)
  qed
qed

lemma parse_file_evolves:
  assumes "parse_file fnm inc exc ds f st = Inr st'"
  shows "\<exists>rs. fst st' = fst st @ rs \<and> snd st' = fold rebuild_step rs (snd st) \<and>
              (\<forall>r\<in>set rs. dataset_id r = ds \<and> file_id r \<noteq> [] \<and> file_name r \<noteq> [] \<and>
                 selected r = glob_selected fnm (file_name r) inc exc \<and>
                 (\<exists>raw. file_status r = py_upper raw))"
proof -
  from parse_file_result [OF assms] show ?thesis
  proof
    assume "st' = st"
    then show ?thesis by (intro exI [of _ "[]"]) simp
  next
    assume "\<exists>r. st' = (fst st @ [r], rebuild_step r (snd st)) \<and>
              dataset_id r = ds \<and> file_id r \<noteq> [] \<and> file_name r \<noteq> [] \<and>
              selected r = glob_selected fnm (file_name r) inc exc \<and>
              (\<exists>fd raw. f = JDict fd \<and> get fd ''_id'' = JStr (file_id r) \<and>
                   get fd ''file_name'' = JStr (file_name r) \<and>
                   py_or (get fd ''file_status'') (JStr []) = JStr raw \<and>
                   file_status r = py_upper raw \<and>
                   (\<exists>h. build_version_haystack fd = Inr h \<and>
                        phytozome_version r = extract_phytozome_version h))"
    then obtain r where r: "st' = (fst st @ [r], rebuild_step r (snd st))"
        "dataset_id r = ds" "file_id r \<noteq> []" "file_name r \<noteq> []"
        "selected r = glob_selected fnm (file_name r) inc exc"
        "\<exists>raw. file_status r = py_upper raw"
      by blast
    then show ?thesis by (intro exI [of _ "[r]"]) simp
  qed
qed

lemma parse_files_evolves:
  "parse_files fnm inc exc ds fs st = Inr st' \<Longrightarrow>
   \<exists>rs. fst st' = fst st @ rs \<and> snd st' = fold rebuild_step rs (snd st) \<and>
        (\<forall>r\<in>set rs. dataset_id r = ds \<and> file_id r \<noteq> [] \<and> file_name r \<noteq> [] \<and>
           selected r = glob_selected fnm (file_name r) inc exc \<and>
           (\<exists>raw. file_status r = py_upper raw))"
proof (induction fs arbitrary: st)
  case Nil
  then show ?case by (intro exI [of _ "[]"]) simp
next
  case (Cons f fs)
  then obtain st1 where s1: "parse_file fnm inc exc ds f st = Inr st1"
      and s2: "parse_files fnm inc exc ds fs st1 = Inr st'"
    by (auto split: sum.splits)
  from parse_file_evolves [OF s1] obtain rs1 where
    a: "fst st1 = fst st @ rs1" "snd st1 = fold rebuild_step rs1 (snd st)"
       "\<forall>r\<in>set rs1. dataset_id r = ds \<and> file_id r \<noteq> [] \<and> file_name r \<noteq> [] \<and>
           selected r = glob_selected fnm (file_name r) inc exc \<and>
           (\<exists>raw. file_status r = py_upper raw)"
    by blast
  from Cons.IH [OF s2] obtain rs2 where
    b: "fst st' = fst st1 @ rs2" "snd st' = fold rebuild_step rs2 (snd st1)"
       "\<forall>r\<in>set rs2. dataset_id r = ds \<and> file_id r \<noteq> [] \<and> file_name r \<noteq> [] \<and>
           selected r = glob_selected fnm (file_name r) inc exc \<and>
           (\<exists>raw. file_status r = py_upper raw)"
    by blast
  show ?case
    using a b by (intro exI [of _ "rs1 @ rs2"]) auto
qed

lemma parse_org_evolves:
  assumes "parse_org fnm inc exc org st = Inr st'"
  shows "\<exists>rs. fst st' = fst st @ rs \<and> snd st' = fold rebuild_step rs (snd st) \<and>
        (\<forall>r\<in>set rs. file_id r \<noteq> [] \<and> file_name r \<noteq> [] \<and>
           selected r = glob_selected fnm (file_name r) inc exc \<and>
           (\<exists>raw. file_status r = py_upper raw))"
proof -
  obtain od where od: "org = JDict od"
    using assms by (cases org) (simp_all add: parse_org_def)
  show ?thesis
  proof (cases "truthy (get od ''id'')")
    case False
    then have "st' = st" using assms od by (simp add: parse_org_def)
    then show ?thesis by (intro exI [of _ "[]"]) simp
  next
    case True
    then obtain files ds where "parse_files fnm inc exc ds files st = Inr st'"
      using assms od
      by (auto simp: parse_org_def Let_def split: sum.splits json.splits)
    from parse_files_evolves [OF this] show ?thesis by blast
  qed
qed

lemma parse_orgs_evolves:
  "parse_orgs fnm inc exc orgs st = Inr st' \<Longrightarrow>
   \<exists>rs. fst st' = fst st @ rs \<and> snd st' = fold rebuild_step rs (snd st) \<and>
        (\<forall>r\<in>set rs. file_id r \<noteq> [] \<and> file_name r \<noteq> [] \<and>
           selected r = glob_selected fnm (file_name r) inc exc \<and>
           (\<exists>raw. file_status r = py_upper raw))"
proof (induction orgs arbitrary: st)
  case Nil
  then show ?case by (intro exI [of _ "[]"]) simp
next
  case (Cons org orgs)
  then obtain st1 where s1: "parse_org fnm inc exc org st = Inr st1"
      and s2: "parse_orgs fnm inc exc orgs st1 = Inr st'"
    by (auto split: sum.splits)
  from parse_org_evolves [OF s1] obtain rs1 where
    a: "fst st1 = fst st @ rs1" "snd st1 = fold rebuild_step rs1 (snd st)"
       "\<forall>r\<in>set rs1. file_id r \<noteq> [] \<and> file_name r \<noteq> [] \<and>
           selected r = glob_selected fnm (file_name r) inc exc \<and>
           (\<exists>raw. file_status r = py_upper raw)"
    by blast
  from Cons.IH [OF s2] obtain rs2 where
    b: "fst st' = fst st1 @ rs2" "snd st' = fold rebuild_step rs2 (snd st1)"
       "\<forall>r\<in>set rs2. file_id r \<noteq> [] \<and> file_name r \<noteq> [] \<and>
           selected r = glob_selected fnm (file_name r) inc exc \<and>
           (\<exists>raw. file_status r = py_upper raw)"
    by blast
  show ?case
    using a b by (intro exI [of _ "rs1 @ rs2"]) auto
qed

lemma parse_search_rows:
  assumes "parse_search fnm j inc exc = Inr (rows, sel, pur)"
  shows "(sel, pur) = rebuild_selected_maps rows"
    and "\<forall>r\<in>set rows. file_id r \<noteq> [] \<and> file_name r \<noteq> [] \<and>
           selected r = glob_selected fnm (file_name r) inc exc \<and>
           (\<exists>raw. file_status r = py_upper raw)"
proof -
  obtain sd orgs st where
    p: "parse_orgs fnm inc exc orgs ([], [], []) = Inr st"
    and r: "rows = fst st" "sel = dedup_values (fst (snd st))" "pur = dedup_values (snd (snd st))"
    using assms by (auto simp: parse_search_def split: json.splits sum.splits)
  from parse_orgs_evolves [OF p] obtain rs where
    a: "fst st = rs" "snd st = fold rebuild_step rs ([], [])"
       "\<forall>r\<in>set rs. file_id r \<noteq> [] \<and> file_name r \<noteq> [] \<and>
           selected r = glob_selected fnm (file_name r) inc exc \<and>
           (\<exists>raw. file_status r = py_upper raw)"
    by auto
  show "(sel, pur) = rebuild_selected_maps rows"
    using a r by (simp add: rebuild_selected_maps_def Let_def)
  show "\<forall>r\<in>set rows. file_id r \<noteq> [] \<and> file_name r \<noteq> [] \<and>
           selected r = glob_selected fnm (file_name r) inc exc \<and>
           (\<exists>raw. file_status r = py_upper raw)"
    using a r by simp
qed

section \<open>The sample response, evaluated\<close>

lemmas char_eval = lower_char_def upper_char_def is_space_def is_sep_def is_digit_def
  digit_val_def char_of_eq_iff str_lower_def str_upper_def codes_def py_upper_def upper_codes_def

lemma sample_v12_fields:
  "get sample_v12 ''_id'' = JStr ''f12''"
  "get sample_v12 ''file_name'' = JStr ''x.gff3.gz''"
  "get sample_v12 ''file_status'' = JStr ''LIVE''"
  by (simp_all add: get_def sample_v12_def)

lemma sample_v13_fields:
  "get sample_v13 ''_id'' = JStr ''f13''"
  "get sample_v13 ''file_name'' = JStr ''x.gff.gz''"
  "get sample_v13 ''file_status'' = JStr ''purged''"
  by (simp_all add: get_def sample_v13_def)

lemma sample_no_id_fields:
  "get sample_no_id ''_id'' = JStr []"
  "get sample_no_id ''file_name'' = JStr ''y.gff.gz''"
  "get sample_no_id ''file_status'' = JNull"
  by (simp_all add: get_def sample_no_id_def)

lemma sample_v12_harvest:
  "harvest sample_v12 ''x.gff3.gz'' =
     [''x.gff3.gz'', ''_id'', ''f12'', ''file_name'', ''x.gff3.gz'', ''file_status'', ''LIVE'',
      ''metadata'', ''path'', ''Phytozome/PhytozomeV12/x'']"
  by (simp add: harvest_def sample_v12_def)

lemma sample_v13_harvest:
  "harvest sample_v13 ''x.gff.gz'' =
     [''x.gff.gz'', ''_id'', ''f13'', ''file_name'', ''x.gff.gz'', ''file_status'', ''purged'',
      ''metadata'', ''path'', ''Phytozome/PhytozomeV13/x'']"
  by (simp add: harvest_def sample_v13_def)

lemma sample_v12_haystack:
  "build_version_haystack sample_v12 = Inr ''Phytozome/PhytozomeV12/x''"
  by (simp add: build_version_haystack_def sample_v12_fields py_or_def sample_v12_harvest
        choose_strings_def has_marker_def char_eval)

lemma sample_v13_haystack:
  "build_version_haystack sample_v13 = Inr ''Phytozome/PhytozomeV13/x''"
  by (simp add: build_version_haystack_def sample_v13_fields py_or_def sample_v13_harvest
        choose_strings_def has_marker_def char_eval)

lemma sample_versions:
  "extract_phytozome_version ''Phytozome/PhytozomeV12/x'' = Some 12"
  "extract_phytozome_version ''Phytozome/PhytozomeV13/x'' = Some 13"
  by (simp_all add: extract_phytozome_version_def PHYTOZOME_VER_PATTERNS_def parse_int_def char_eval)

lemma sample_globs:
  "glob_selected fnmatch_glob ''x.gff3.gz'' [''*.gff*.gz''] []"
  "glob_selected fnmatch_glob ''x.gff.gz'' [''*.gff*.gz''] []"
  by (simp_all add: glob_selected_def matches_any_glob_def fnmatch_glob_def)

lemma sample_parse_file_v12:
  "parse_file fnmatch_glob [''*.gff*.gz''] [] ''ds1'' (JDict sample_v12) (rows, sel, pur) =
     Inr (rows @ [sample_row_v12], setdefault_append sel ''ds1'' ''f12'', pur)"
  by (simp add: parse_file_def sample_v12_fields py_or_def sample_v12_haystack sample_versions
        sample_globs sample_row_v12_def char_eval)

lemma sample_parse_file_v13:
  "parse_file fnmatch_glob [''*.gff*.gz''] [] ''ds1'' (JDict sample_v13) (rows, sel, pur) =
     Inr (rows @ [sample_row_v13], setdefault_append sel ''ds1'' ''f13'',
          setdefault_append pur ''ds1'' ''f13'')"
  by (simp add: parse_file_def sample_v13_fields py_or_def sample_v13_haystack sample_versions
        sample_globs sample_row_v13_def char_eval)

lemma sample_parse_file_no_id:
  "parse_file fnmatch_glob [''*.gff*.gz''] [] ''ds1'' (JDict sample_no_id) st = Inr st"
  by (simp add: parse_file_def sample_no_id_fields py_or_def)

lemma sample_parse_files:
  "parse_files fnmatch_glob [''*.gff*.gz''] [] ''ds1'' sample_files ([], [], []) =
     Inr (sample_rows, [(''ds1'', [''f12'', ''f13'', ''f13''])], [(''ds1'', [''f13'', ''f13''])])"
  by (simp add: sample_files_def sample_parse_file_v12 sample_parse_file_v13
        sample_parse_file_no_id sample_rows_def)

lemma sample_files_nonempty: "sample_files \<noteq> []"
  by (simp add: sample_files_def)

lemma sample_parse:
  "parse_search fnmatch_glob sample_response [''*.gff*.gz''] [] =
     Inr (sample_rows, [(''ds1'', [''f12'', ''f13''])], [(''ds1'', [''f13''])])"
  by (simp add: parse_search_def sample_response_def get_def iter_or_empty_def parse_org_def
        sample_org_def sample_parse_files sample_files_nonempty dedup_values_def dedup_def)

lemma parse_files_append:
  "parse_files fnm inc exc ds (fs1 @ fs2) st =
     (case parse_files fnm inc exc ds fs1 st of
        Inl e \<Rightarrow> Inl e
      | Inr st1 \<Rightarrow> parse_files fnm inc exc ds fs2 st1)"
  by (induction fs1 arbitrary: st) (auto split: sum.splits)

lemma parse_file_dropped:
  assumes "\<not> truthy (get fd ''_id'') \<or> \<not> truthy (get fd ''file_name'')"
  shows "parse_file fnm inc exc ds (JDict fd) st =
           (case py_or (get fd ''file_status'') (JStr []) of
              JStr raw \<Rightarrow> Inr st
            | _ \<Rightarrow> Inl AttributeError)"
  using assms by (auto simp: parse_file_def py_or_def Let_def split: json.splits)

lemma rebuild_maps_char:
  assumes "rebuild_selected_maps rows = (sel, pur)"
  shows "distinct (map fst sel)" "distinct (map fst pur)"
    "map_of sel ds = (if ids_of selected rows ds = [] then None
                      else Some (dedup (ids_of selected rows ds)))"
    "map_of pur ds =
       (if ids_of (\<lambda>r. selected r \<and> file_status r = codes ''PURGED'') rows ds = [] then None
        else Some (dedup (ids_of (\<lambda>r. selected r \<and> file_status r = codes ''PURGED'') rows ds)))"
proof -
  have s: "sel = dedup_values (fst (fold rebuild_step rows ([], [])))"
    and p: "pur = dedup_values (snd (fold rebuild_step rows ([], [])))"
    using assms by (simp_all add: rebuild_selected_maps_def Let_def)
  show "distinct (map fst sel)" "distinct (map fst pur)"
    using distinct_keys_fold_rebuild [of rows] by (simp_all add: s p keys_dedup_values)
  show "map_of sel ds = (if ids_of selected rows ds = [] then None
                      else Some (dedup (ids_of selected rows ds)))"
    by (simp add: s map_of_dedup_values fst_fold_rebuild)
  show "map_of pur ds =
       (if ids_of (\<lambda>r. selected r \<and> file_status r = codes ''PURGED'') rows ds = [] then None
        else Some (dedup (ids_of (\<lambda>r. selected r \<and> file_status r = codes ''PURGED'') rows ds)))"
    by (simp add: p map_of_dedup_values snd_fold_rebuild)
qed

lemma glob_selected_iff:
  "glob_selected fnm fname inc exc =
     ((inc = [] \<or> (\<exists>g\<in>set inc. fnm fname g)) \<and> \<not> (\<exists>g\<in>set exc. fnm fname g))"
  by (auto simp: glob_selected_def matches_any_glob_def list_ex_iff Let_def)

lemma sample_rebuild:
  "rebuild_selected_maps sample_rows = ([(''ds1'', [''f12'', ''f13''])], [(''ds1'', [''f13''])])"
  using parse_search_rows(1) [OF sample_parse] by simp

lemma sample_ids:
  "ids_of selected sample_rows ''ds1'' = [''f12'', ''f13'', ''f13'']"
  by (simp add: ids_of_def sample_rows_def sample_row_v12_def sample_row_v13_def)

section \<open>Facts about the latest-only refinement\<close>

lemma set_selected_versions:
  "set (selected_versions rows) = {v. \<exists>r\<in>set rows. selected r \<and> phytozome_version r = Some v}"
  by (auto simp: selected_versions_def split: option.splits if_splits)

lemma selected_versions_empty_iff:
  "selected_versions rows = [] \<longleftrightarrow> \<not> (\<exists>r\<in>set rows. selected r \<and> phytozome_version r \<noteq> None)"
proof -
  have a: "selected_versions rows = [] \<longleftrightarrow> set (selected_versions rows) = {}" by simp
  have b: "(\<exists>r\<in>set rows. selected r \<and> phytozome_version r \<noteq> None) \<longleftrightarrow>
           (\<exists>v. \<exists>r\<in>set rows. selected r \<and> phytozome_version r = Some v)"
    by auto
  show ?thesis unfolding a b set_selected_versions by blast
qed

lemma apply_latest_only_some:
  assumes "\<exists>r\<in>set rows. selected r \<and> phytozome_version r \<noteq> None"
  shows "apply_latest_only rows =
           map (\<lambda>r. r\<lparr>selected := selected r \<and> phytozome_version r =
                    Some (Max {v. \<exists>r\<in>set rows. selected r \<and> phytozome_version r = Some v})\<rparr>) rows"
proof -
  from assms have ne: "selected_versions rows \<noteq> []"
    by (simp add: selected_versions_empty_iff)
  then obtain v vs where vs: "selected_versions rows = v # vs"
    by (cases "selected_versions rows") auto
  have m: "fold max vs v = Max {v. \<exists>r\<in>set rows. selected r \<and> phytozome_version r = Some v}"
    using Max.set_eq_fold [of v vs] set_selected_versions [of rows] vs by simp
  show ?thesis
    unfolding apply_latest_only_def vs
    by (auto simp: m Let_def split: option.splits)
qed

lemma apply_latest_only_none:
  assumes "\<not> (\<exists>r\<in>set rows. selected r \<and> phytozome_version r \<noteq> None)"
  shows "apply_latest_only rows = rows"
  using assms selected_versions_empty_iff [of rows] by (simp add: apply_latest_only_def)

lemma latest_only_warning_iff:
  "snd (snd (latest_only_step rows)) \<longleftrightarrow>
     \<not> (\<exists>r\<in>set rows. selected r \<and> phytozome_version r \<noteq> None)"
proof (cases "\<exists>r\<in>set rows. selected r \<and> phytozome_version r \<noteq> None")
  case False
  then show ?thesis
    using selected_versions_empty_iff [of rows]
    by (simp add: latest_only_step_def Let_def apply_latest_only_none)
next
  case True
  let ?S = "{v. \<exists>r\<in>set rows. selected r \<and> phytozome_version r = Some v}"
  have fin: "finite ?S" using set_selected_versions [of rows, symmetric] by (metis List.finite_set)
  have ne: "?S \<noteq> {}" using True by auto
  have "Max ?S \<in> ?S" using fin ne by (rule Max_in)
  then obtain r where r: "r \<in> set rows" "selected r" "phytozome_version r = Some (Max ?S)"
    by blast
  let ?r' = "r\<lparr>selected := selected r \<and> phytozome_version r = Some (Max ?S)\<rparr>"
  have "?r' \<in> set (apply_latest_only rows)"
    using r(1) by (simp add: apply_latest_only_some [OF True])
  moreover have "selected ?r' \<and> phytozome_version ?r' \<noteq> None" using r by simp
  ultimately have "\<exists>r\<in>set (apply_latest_only rows). selected r \<and> phytozome_version r \<noteq> None"
    by blast
  then have "selected_versions (apply_latest_only rows) \<noteq> []"
    by (simp add: selected_versions_empty_iff)
  then show ?thesis using True
    by (simp add: latest_only_step_def Let_def)
qed

section \<open>Claims about parsing and selection\<close>

text \<open>
  Claim C6. The two selection maps that \<open>parse_search\<close> returns are the maps that
  \<open>rebuild_selected_maps\<close> builds from scratch from the manifest rows it returns, for
  every search response and every pair of glob lists for which it returns.
\<close>

theorem parse_search_maps_are_projections:
  "parse_search fnm search_json include_globs exclude_globs = Inr (rows, sel, pur)
   \<Longrightarrow> rebuild_selected_maps rows = (sel, pur)"
  using parse_search_rows(1) [of fnm search_json include_globs exclude_globs rows sel pur]
  by simp

theorem parse_search_maps_are_projections_witness:
  "parse_search fnmatch_glob sample_response [''*.gff*.gz''] [] =
     Inr (sample_rows, [(''ds1'', [''f12'', ''f13''])], [(''ds1'', [''f13''])]) \<and>
   rebuild_selected_maps sample_rows = ([(''ds1'', [''f12'', ''f13''])], [(''ds1'', [''f13''])])"
  using parse_search_maps_are_projections [OF sample_parse] sample_parse by simp

text \<open>
  Claim C3. A file name is selected exactly when the include list is empty or one of its
  globs matches the name, and no glob of the exclude list matches it; every manifest row
  of \<open>parse_search\<close> carries this decision for its file name.
\<close>

theorem include_exclude_filtering:
  "(glob_selected fnm fname include_globs exclude_globs \<longleftrightarrow>
      (include_globs = [] \<or> (\<exists>g\<in>set include_globs. fnm fname g)) \<and>
      \<not> (\<exists>g\<in>set exclude_globs. fnm fname g)) \<and>
   (parse_search fnm search_json include_globs exclude_globs = Inr (rows, sel, pur) \<longrightarrow>
      (\<forall>r\<in>set rows.
         selected r \<longleftrightarrow>
           (include_globs = [] \<or> (\<exists>g\<in>set include_globs. fnm (file_name r) g)) \<and>
           \<not> (\<exists>g\<in>set exclude_globs. fnm (file_name r) g)))"
proof (intro conjI impI)
  show "glob_selected fnm fname include_globs exclude_globs \<longleftrightarrow>
      (include_globs = [] \<or> (\<exists>g\<in>set include_globs. fnm fname g)) \<and>
      \<not> (\<exists>g\<in>set exclude_globs. fnm fname g)"
    by (rule glob_selected_iff)
next
  assume p: "parse_search fnm search_json include_globs exclude_globs = Inr (rows, sel, pur)"
  show "\<forall>r\<in>set rows.
         selected r \<longleftrightarrow>
           (include_globs = [] \<or> (\<exists>g\<in>set include_globs. fnm (file_name r) g)) \<and>
           \<not> (\<exists>g\<in>set exclude_globs. fnm (file_name r) g)"
    using parse_search_rows(2) [OF p] by (simp add: glob_selected_iff)
qed

theorem include_exclude_filtering_witness:
  "parse_search fnmatch_glob sample_response [''*.gff*.gz''] [] =
     Inr (sample_rows, [(''ds1'', [''f12'', ''f13''])], [(''ds1'', [''f13''])]) \<and>
   selected sample_row_v12 \<and> fnmatch_glob (file_name sample_row_v12) ''*.gff*.gz'' \<and>
   glob_selected fnmatch_glob ''a.gff3.gz'' [''*.gff3.gz''] [''*masked*''] \<and>
   \<not> glob_selected fnmatch_glob ''a.gff3.gz'' [''*.gff3.gz''] [''*.gff3.gz'']"
proof -
  have a: "\<forall>r\<in>set sample_rows.
         selected r \<longleftrightarrow>
           ([''*.gff*.gz''] = [] \<or> (\<exists>g\<in>set [''*.gff*.gz'']. fnmatch_glob (file_name r) g)) \<and>
           \<not> (\<exists>g\<in>set []. fnmatch_glob (file_name r) g)"
    using include_exclude_filtering [of fnmatch_glob "[]" "[''*.gff*.gz'']" "[]" sample_response
        sample_rows "[(''ds1'', [''f12'', ''f13''])]" "[(''ds1'', [''f13''])]"] sample_parse
    by blast
  have r: "sample_row_v12 \<in> set sample_rows"
    by (simp add: sample_rows_def)
  have b: "selected sample_row_v12" by (simp add: sample_row_v12_def)
  have c: "fnmatch_glob (file_name sample_row_v12) ''*.gff*.gz''"
    using a r b by simp
  have d: "glob_selected fnmatch_glob ''a.gff3.gz'' [''*.gff3.gz''] [''*masked*'']"
    using include_exclude_filtering [of fnmatch_glob "''a.gff3.gz''" "[''*.gff3.gz'']" "[''*masked*'']"]
    by (simp add: fnmatch_glob_def)
  have e: "\<not> glob_selected fnmatch_glob ''a.gff3.gz'' [''*.gff3.gz''] [''*.gff3.gz'']"
    using include_exclude_filtering [of fnmatch_glob "''a.gff3.gz''" "[''*.gff3.gz'']" "[''*.gff3.gz'']"]
    by (simp add: fnmatch_glob_def)
  show ?thesis using sample_parse b c d e by simp
qed

text \<open>
  Claim C8. A file entry whose identifier or name is missing or empty (any false value)
  leaves the manifest and both selection maps as they were, so the file list without the
  entry parses to the same result; every manifest row has a non-empty \<open>file_id\<close> and
  \<open>file_name\<close>, and every identifier in a selection map is non-empty and is the
  identifier of a selected row of that dataset.
\<close>

theorem empty_identifier_dropped:
  "(\<not> truthy (get fd ''_id'') \<or> \<not> truthy (get fd ''file_name'') \<longrightarrow>
      parse_file fnm include_globs exclude_globs ds (JDict fd) st =
        (case py_or (get fd ''file_status'') (JStr []) of
           JStr raw \<Rightarrow> Inr st
         | _ \<Rightarrow> Inl AttributeError)) \<and>
   (\<not> truthy (get fd ''_id'') \<or> \<not> truthy (get fd ''file_name'') \<longrightarrow>
      parse_files fnm include_globs exclude_globs ds (fs1 @ JDict fd # fs2) st = Inr st' \<longrightarrow>
      parse_files fnm include_globs exclude_globs ds (fs1 @ fs2) st = Inr st') \<and>
   (parse_search fnm search_json include_globs exclude_globs = Inr (rows, sel, pur) \<longrightarrow>
      (\<forall>r\<in>set rows. file_id r \<noteq> [] \<and> file_name r \<noteq> []) \<and>
      (\<forall>kv\<in>set sel \<union> set pur. \<forall>i\<in>set (snd kv).
          i \<noteq> [] \<and> (\<exists>r\<in>set rows. selected r \<and> dataset_id r = fst kv \<and> file_id r = i)))"
proof (intro conjI impI)
  assume "\<not> truthy (get fd ''_id'') \<or> \<not> truthy (get fd ''file_name'')"
  then show "parse_file fnm include_globs exclude_globs ds (JDict fd) st =
        (case py_or (get fd ''file_status'') (JStr []) of
           JStr raw \<Rightarrow> Inr st
         | _ \<Rightarrow> Inl AttributeError)"
    by (rule parse_file_dropped)
next
  assume bad: "\<not> truthy (get fd ''_id'') \<or> \<not> truthy (get fd ''file_name'')"
    and p: "parse_files fnm include_globs exclude_globs ds (fs1 @ JDict fd # fs2) st = Inr st'"
  from p obtain st1 where
    s1: "parse_files fnm include_globs exclude_globs ds fs1 st = Inr st1"
    and s2: "parse_files fnm include_globs exclude_globs ds (JDict fd # fs2) st1 = Inr st'"
    by (auto simp: parse_files_append split: sum.splits)
  from s2 obtain st2 where
    s3: "parse_file fnm include_globs exclude_globs ds (JDict fd) st1 = Inr st2"
    and s4: "parse_files fnm include_globs exclude_globs ds fs2 st2 = Inr st'"
    by (auto split: sum.splits)
  have "st2 = st1"
    using s3 parse_file_dropped [OF bad, of fnm include_globs exclude_globs ds st1]
    by (auto split: json.splits)
  then show "parse_files fnm include_globs exclude_globs ds (fs1 @ fs2) st = Inr st'"
    using s1 s4 by (simp add: parse_files_append)
next
  assume p: "parse_search fnm search_json include_globs exclude_globs = Inr (rows, sel, pur)"
  show "\<forall>r\<in>set rows. file_id r \<noteq> [] \<and> file_name r \<noteq> []"
    using parse_search_rows(2) [OF p] by simp
  have rb: "rebuild_selected_maps rows = (sel, pur)"
    using parse_search_rows(1) [OF p] by simp
  show "\<forall>kv\<in>set sel \<union> set pur. \<forall>i\<in>set (snd kv).
          i \<noteq> [] \<and> (\<exists>r\<in>set rows. selected r \<and> dataset_id r = fst kv \<and> file_id r = i)"
  proof (intro ballI)
    fix kv i
    assume kv: "kv \<in> set sel \<union> set pur" and i: "i \<in> set (snd kv)"
    obtain k ids where kvd: "kv = (k, ids)" by (cases kv)
    have "i \<in> set (ids_of selected rows k)"
    proof (cases "kv \<in> set sel")
      case True
      then have "map_of sel k = Some ids"
        using rebuild_maps_char(1) [OF rb] kvd by simp
      then have "ids = dedup (ids_of selected rows k)"
        using rebuild_maps_char(3) [OF rb, of k] by (simp split: if_splits)
      then show ?thesis using i kvd by (simp add: set_dedup)
    next
      case False
      then have "kv \<in> set pur" using kv by simp
      then have "map_of pur k = Some ids"
        using rebuild_maps_char(2) [OF rb] kvd by simp
      then have "ids = dedup (ids_of (\<lambda>r. selected r \<and> file_status r = codes ''PURGED'') rows k)"
        using rebuild_maps_char(4) [OF rb, of k] by (simp split: if_splits)
      then show ?thesis using i kvd by (auto simp: set_dedup ids_of_def)
    qed
    then obtain r where r: "r \<in> set rows" "selected r" "dataset_id r = k" "file_id r = i"
      by (auto simp: ids_of_def)
    moreover have "file_id r \<noteq> []"
      using parse_search_rows(2) [OF p] r(1) by simp
    ultimately show "i \<noteq> [] \<and> (\<exists>r\<in>set rows. selected r \<and> dataset_id r = fst kv \<and> file_id r = i)"
      using kvd by auto
  qed
qed

theorem empty_identifier_dropped_witness:
  "\<not> truthy (get sample_no_id ''_id'') \<and>
   parse_file fnmatch_glob [''*.gff*.gz''] [] ''ds1'' (JDict sample_no_id) ([], [], []) = Inr ([], [], []) \<and>
   parse_files fnmatch_glob [''*.gff*.gz''] [] ''ds1''
      ([JDict sample_v12, JDict sample_v13] @ JDict sample_no_id # [JDict sample_v13]) ([], [], [])
     = Inr (sample_rows, [(''ds1'', [''f12'', ''f13'', ''f13''])], [(''ds1'', [''f13'', ''f13''])]) \<and>
   parse_files fnmatch_glob [''*.gff*.gz''] [] ''ds1''
      ([JDict sample_v12, JDict sample_v13] @ [JDict sample_v13]) ([], [], [])
     = Inr (sample_rows, [(''ds1'', [''f12'', ''f13'', ''f13''])], [(''ds1'', [''f13'', ''f13''])]) \<and>
   parse_search fnmatch_glob sample_response [''*.gff*.gz''] [] =
     Inr (sample_rows, [(''ds1'', [''f12'', ''f13''])], [(''ds1'', [''f13''])]) \<and>
   file_id sample_row_v12 \<noteq> [] \<and> file_name sample_row_v12 \<noteq> []"
proof -
  have bad: "\<not> truthy (get sample_no_id ''_id'')"
    by (simp add: sample_no_id_fields)
  have pf: "parse_files fnmatch_glob [''*.gff*.gz''] [] ''ds1''
      ([JDict sample_v12, JDict sample_v13] @ JDict sample_no_id # [JDict sample_v13]) ([], [], [])
     = Inr (sample_rows, [(''ds1'', [''f12'', ''f13'', ''f13''])], [(''ds1'', [''f13'', ''f13''])])"
    using sample_parse_files by (simp add: sample_files_def)
  note t = empty_identifier_dropped [of sample_no_id fnmatch_glob "[''*.gff*.gz'']" "[]" "''ds1''"
      "([], [], [])" "[JDict sample_v12, JDict sample_v13]" "[JDict sample_v13]"
      "(sample_rows, [(''ds1'', [''f12'', ''f13'', ''f13''])], [(''ds1'', [''f13'', ''f13''])])"
      sample_response sample_rows "[(''ds1'', [''f12'', ''f13''])]" "[(''ds1'', [''f13''])]"]
  have a: "parse_file fnmatch_glob [''*.gff*.gz''] [] ''ds1'' (JDict sample_no_id) ([], [], []) = Inr ([], [], [])"
    using t bad by (simp add: sample_no_id_fields py_or_def)
  have b: "parse_files fnmatch_glob [''*.gff*.gz''] [] ''ds1''
      ([JDict sample_v12, JDict sample_v13] @ [JDict sample_v13]) ([], [], [])
     = Inr (sample_rows, [(''ds1'', [''f12'', ''f13'', ''f13''])], [(''ds1'', [''f13'', ''f13''])])"
    using t bad pf by blast
  have c: "\<forall>r\<in>set sample_rows. file_id r \<noteq> [] \<and> file_name r \<noteq> []"
    using t sample_parse by blast
  have "sample_row_v12 \<in> set sample_rows" by (simp add: sample_rows_def)
  then have d: "file_id sample_row_v12 \<noteq> [] \<and> file_name sample_row_v12 \<noteq> []"
    using c by blast
  show ?thesis using bad a pf b sample_parse d by simp
qed

text \<open>
  Claim C9. \<open>dedup\<close> keeps each identifier exactly once, at the place of its first
  occurrence (the result lists the elements of the input at the positions where the
  element has not occurred before), and leaves a duplicate-free list unchanged. Both
  builders of selection maps, \<open>rebuild_selected_maps\<close> and \<open>parse_search\<close>, give every
  dataset that has a selected row exactly one entry, whose list is \<open>dedup\<close> of the
  identifiers of its selected rows in manifest order (of its selected purged rows, for
  the purged map).
\<close>

theorem stable_dedup:
  fixes xs :: "string list"
  shows
  "distinct (dedup xs) \<and> set (dedup xs) = set xs \<and>
   dedup xs = map (\<lambda>i. xs ! i) (filter (\<lambda>i. xs ! i \<notin> set (take i xs)) [0..<length xs]) \<and>
   (distinct xs \<longrightarrow> dedup xs = xs) \<and>
   dedup (dedup xs) = dedup xs \<and>
   (rebuild_selected_maps rows = (sel, pur) \<longrightarrow>
      distinct (map fst sel) \<and> distinct (map fst pur) \<and>
      (\<forall>ds. map_of sel ds =
         (if ids_of selected rows ds = [] then None
          else Some (dedup (ids_of selected rows ds)))) \<and>
      (\<forall>ds. map_of pur ds =
         (if ids_of (\<lambda>r. selected r \<and> file_status r = codes ''PURGED'') rows ds = [] then None
          else Some (dedup (ids_of (\<lambda>r. selected r \<and> file_status r = codes ''PURGED'') rows ds))))) \<and>
   (parse_search fnm search_json include_globs exclude_globs = Inr (rows', sel', pur') \<longrightarrow>
      distinct (map fst sel') \<and> distinct (map fst pur') \<and>
      (\<forall>ds. map_of sel' ds =
         (if ids_of selected rows' ds = [] then None
          else Some (dedup (ids_of selected rows' ds)))) \<and>
      (\<forall>ds. map_of pur' ds =
         (if ids_of (\<lambda>r. selected r \<and> file_status r = codes ''PURGED'') rows' ds = [] then None
          else Some (dedup (ids_of (\<lambda>r. selected r \<and> file_status r = codes ''PURGED'') rows' ds)))))"
proof (intro conjI impI allI)
  show "distinct (dedup xs)" by (rule distinct_dedup)
  show "set (dedup xs) = set xs" by (rule set_dedup)
  show "dedup xs = map (\<lambda>i. xs ! i) (filter (\<lambda>i. xs ! i \<notin> set (take i xs)) [0..<length xs])"
    by (rule dedup_first_seen)
  show "dedup (dedup xs) = dedup xs"
    by (rule dedup_distinct_id) (rule distinct_dedup)
next
  assume "distinct xs"
  then show "dedup xs = xs" by (rule dedup_distinct_id)
next
  assume rb: "rebuild_selected_maps rows = (sel, pur)"
  show "distinct (map fst sel)" by (rule rebuild_maps_char(1) [OF rb])
  show "distinct (map fst pur)" by (rule rebuild_maps_char(2) [OF rb])
  show "map_of sel ds =
         (if ids_of selected rows ds = [] then None
          else Some (dedup (ids_of selected rows ds)))" for ds
    by (rule rebuild_maps_char(3) [OF rb])
  show "map_of pur ds =
         (if ids_of (\<lambda>r. selected r \<and> file_status r = codes ''PURGED'') rows ds = [] then None
          else Some (dedup (ids_of (\<lambda>r. selected r \<and> file_status r = codes ''PURGED'') rows ds)))" for ds
    by (rule rebuild_maps_char(4) [OF rb])
next
  assume p: "parse_search fnm search_json include_globs exclude_globs = Inr (rows', sel', pur')"
  have rb: "rebuild_selected_maps rows' = (sel', pur')"
    using parse_search_rows(1) [OF p] by simp
  show "distinct (map fst sel')" by (rule rebuild_maps_char(1) [OF rb])
  show "distinct (map fst pur')" by (rule rebuild_maps_char(2) [OF rb])
  show "map_of sel' ds =
         (if ids_of selected rows' ds = [] then None
          else Some (dedup (ids_of selected rows' ds)))" for ds
    by (rule rebuild_maps_char(3) [OF rb])
  show "map_of pur' ds =
         (if ids_of (\<lambda>r. selected r \<and> file_status r = codes ''PURGED'') rows' ds = [] then None
          else Some (dedup (ids_of (\<lambda>r. selected r \<and> file_status r = codes ''PURGED'') rows' ds)))" for ds
    by (rule rebuild_maps_char(4) [OF rb])
qed

theorem stable_dedup_witness:
  "dedup [''f12'', ''f13'', ''f13''] = [''f12'', ''f13''] \<and>
   distinct [''f12'', ''f13''] \<and> dedup [''f12'', ''f13''] = [''f12'', ''f13''] \<and>
   rebuild_selected_maps sample_rows = ([(''ds1'', [''f12'', ''f13''])], [(''ds1'', [''f13''])]) \<and>
   parse_search fnmatch_glob sample_response [''*.gff*.gz''] [] =
     Inr (sample_rows, [(''ds1'', [''f12'', ''f13''])], [(''ds1'', [''f13''])]) \<and>
   map_of [(''ds1'', [''f12'', ''f13''])] ''ds1'' = Some (dedup (ids_of selected sample_rows ''ds1''))"
proof -
  note t = stable_dedup [of "[''f12'', ''f13'']" sample_rows "[(''ds1'', [''f12'', ''f13''])]"
      "[(''ds1'', [''f13''])]" fnmatch_glob sample_response "[''*.gff*.gz'']" "[]" sample_rows
      "[(''ds1'', [''f12'', ''f13''])]" "[(''ds1'', [''f13''])]"]
  have d: "distinct [''f12'', ''f13'']" by simp
  have a: "dedup [''f12'', ''f13''] = [''f12'', ''f13'']"
    using t d by blast
  have b: "map_of [(''ds1'', [''f12'', ''f13''])] ''ds1'' =
             (if ids_of selected sample_rows ''ds1'' = [] then None
              else Some (dedup (ids_of selected sample_rows ''ds1'')))"
    using t sample_parse by blast
  have c: "dedup [''f12'', ''f13'', ''f13''] = [''f12'', ''f13'']"
    using b by (simp add: sample_ids)
  show ?thesis using a b c d sample_rebuild sample_parse by (simp add: sample_ids)
qed

section \<open>Claims about the latest-only refinement\<close>

text \<open>
  Claim C1. When some selected row has a detected version, \<open>apply_latest_only\<close> leaves
  a row selected exactly when it was selected and its detected version is the maximum
  of the detected versions of the selected rows; rows with another version or with none
  are deselected, and nothing else of a row changes. When no selected row has a detected
  version, the manifest is returned unchanged. \<open>main\<close> prints the warning "latest-only
  had no effect" in the second case and only then.
\<close>

theorem latest_only_contract:
  "((\<exists>r\<in>set rows. selected r \<and> phytozome_version r \<noteq> None) \<longrightarrow>
      apply_latest_only rows =
        map (\<lambda>r. r\<lparr>selected := selected r \<and> phytozome_version r =
                 Some (Max {v. \<exists>r\<in>set rows. selected r \<and> phytozome_version r = Some v})\<rparr>) rows \<and>
      \<not> snd (snd (latest_only_step rows))) \<and>
   (\<not> (\<exists>r\<in>set rows. selected r \<and> phytozome_version r \<noteq> None) \<longrightarrow>
      apply_latest_only rows = rows \<and> snd (snd (latest_only_step rows))) \<and>
   fst (latest_only_step rows) = apply_latest_only rows"
proof (intro conjI impI)
  assume a: "\<exists>r\<in>set rows. selected r \<and> phytozome_version r \<noteq> None"
  show "apply_latest_only rows =
        map (\<lambda>r. r\<lparr>selected := selected r \<and> phytozome_version r =
                 Some (Max {v. \<exists>r\<in>set rows. selected r \<and> phytozome_version r = Some v})\<rparr>) rows"
    by (rule apply_latest_only_some [OF a])
  show "\<not> snd (snd (latest_only_step rows))"
    using a by (simp add: latest_only_warning_iff)
next
  assume a: "\<not> (\<exists>r\<in>set rows. selected r \<and> phytozome_version r \<noteq> None)"
  show "apply_latest_only rows = rows"
    by (rule apply_latest_only_none [OF a])
  show "snd (snd (latest_only_step rows))"
    using a by (simp add: latest_only_warning_iff)
next
  show "fst (latest_only_step rows) = apply_latest_only rows"
    by (simp add: latest_only_step_def Let_def)
qed

theorem latest_only_contract_witness:
  "apply_latest_only versioned_rows =
     [version_row ''a'' (Some 11) False, version_row ''b'' (Some 12) False,
      version_row ''c'' (Some 13) True, version_row ''d'' None False] \<and>
   \<not> snd (snd (latest_only_step versioned_rows)) \<and>
   apply_latest_only unversioned_rows = unversioned_rows \<and>
   snd (snd (latest_only_step unversioned_rows))"
proof -
  have e: "\<exists>r\<in>set versioned_rows. selected r \<and> phytozome_version r \<noteq> None"
    by (simp add: versioned_rows_def version_row_def)
  have S: "{v. \<exists>r\<in>set versioned_rows. selected r \<and> phytozome_version r = Some v} = {11, 12, 13}"
    by (auto simp: versioned_rows_def version_row_def)
  have n: "\<not> (\<exists>r\<in>set unversioned_rows. selected r \<and> phytozome_version r \<noteq> None)"
    by (simp add: unversioned_rows_def version_row_def)
  have a: "apply_latest_only versioned_rows =
        map (\<lambda>r. r\<lparr>selected := selected r \<and> phytozome_version r = Some (Max {11, 12, 13})\<rparr>)
          versioned_rows"
    using latest_only_contract [of versioned_rows] e S by simp
  have a': "apply_latest_only versioned_rows =
     [version_row ''a'' (Some 11) False, version_row ''b'' (Some 12) False,
      version_row ''c'' (Some 13) True, version_row ''d'' None False]"
    unfolding a by (simp add: versioned_rows_def version_row_def)
  have b: "\<not> snd (snd (latest_only_step versioned_rows))"
    using latest_only_contract [of versioned_rows] e by blast
  have c: "apply_latest_only unversioned_rows = unversioned_rows \<and>
           snd (snd (latest_only_step unversioned_rows))"
    using latest_only_contract [of unversioned_rows] n by blast
  show ?thesis using a' b c by simp
qed

section \<open>Facts about status normalisation\<close>

lemma lower_upper_char: "lower_char (upper_char c) = lower_char c"
  by (auto simp add: lower_char_def upper_char_def Let_def char_of_eq_iff take_bit_eq_mod)

lemma upper_lower_char: "upper_char (lower_char c) = upper_char c"
  by (auto simp add: lower_char_def upper_char_def Let_def char_of_eq_iff take_bit_eq_mod)

lemma upper_upper_char: "upper_char (upper_char c) = upper_char c"
  by (auto simp add: upper_char_def Let_def char_of_eq_iff take_bit_eq_mod)


lemma str_upper_lower: "str_upper (str_lower s) = str_upper s"
  by (simp add: str_upper_def str_lower_def upper_lower_char)

lemma str_lower_upper: "str_lower (str_upper s) = str_lower s"
  by (simp add: str_upper_def str_lower_def lower_upper_char)

lemma str_upper_idem: "str_upper (str_upper s) = str_upper s"
  by (simp add: str_upper_def upper_upper_char)

lemma purged_any_case: "str_upper raw = ''PURGED'' \<longleftrightarrow> str_lower raw = ''purged''"
proof
  assume "str_upper raw = ''PURGED''"
  then have "str_lower (str_upper raw) = str_lower ''PURGED''" by simp
  then show "str_lower raw = ''purged''"
    by (simp add: str_lower_upper) (simp add: char_eval)
next
  assume "str_lower raw = ''purged''"
  then have "str_upper (str_lower raw) = str_upper ''purged''" by simp
  then show "str_upper raw = ''PURGED''"
    by (simp add: str_upper_lower) (simp add: char_eval)
qed

lemma upper_codes_ascii:
  "(of_char c :: nat) < 128 \<Longrightarrow> upper_codes c = [of_char (upper_char c)]"
  by (auto simp: upper_codes_def upper_char_def Let_def)

lemma upper_codes_non_ascii:
  "\<not> (of_char c :: nat) < 128 \<Longrightarrow> \<exists>n ns. upper_codes c = n # ns \<and> (128 \<le> n \<or> n = 83)"
  by (auto simp: upper_codes_def Let_def)

lemma upper_char_non_ascii: "\<not> (of_char c :: nat) < 128 \<Longrightarrow> upper_char c = c"
  by (auto simp: upper_char_def Let_def)

text \<open>
  Comparing upper-cased text with a word of ASCII characters other than \<open>S\<close>:
  \<open>str.upper\<close> and the ASCII map give the same answer.
\<close>

lemma py_upper_plain_word:
  assumes "\<forall>c\<in>set w. (of_char c :: nat) < 128 \<and> (of_char c :: nat) \<noteq> 83"
  shows "py_upper s = codes w \<longleftrightarrow> str_upper s = w"
  using assms
proof (induction s arbitrary: w)
  case Nil
  then show ?case by (auto simp: py_upper_def codes_def str_upper_def)
next
  case (Cons c cs)
  show ?case
  proof (cases "(of_char c :: nat) < 128")
    case True
    show ?thesis
    proof (cases w)
      case Nil
      then show ?thesis
        by (simp add: py_upper_def codes_def str_upper_def upper_codes_ascii [OF True])
    next
      case (Cons x w')
      have "py_upper cs = codes w' \<longleftrightarrow> str_upper cs = w'"
        using Cons.IH [of w'] Cons.prems Cons by simp
      then show ?thesis
        using Cons
        by (auto simp: py_upper_def codes_def str_upper_def upper_codes_ascii [OF True])
    qed
  next
    case False
    obtain n ns where n: "upper_codes c = n # ns" "128 \<le> n \<or> n = 83"
      using upper_codes_non_ascii [OF False] by blast
    have l: "py_upper (c # cs) \<noteq> codes w"
    proof (cases w)
      case Nil
      then show ?thesis by (simp add: py_upper_def codes_def n)
    next
      case (Cons x w')
      then have "(of_char x :: nat) < 128 \<and> (of_char x :: nat) \<noteq> 83"
        using Cons.prems by simp
      then show ?thesis using n Cons by (auto simp: py_upper_def codes_def)
    qed
    have r: "str_upper (c # cs) \<noteq> w"
    proof
      assume "str_upper (c # cs) = w"
      then have "c \<in> set w"
        using upper_char_non_ascii [OF False] by (auto simp: str_upper_def)
      then show False using Cons.prems False by blast
    qed
    show ?thesis using l r by simp
  qed
qed

lemma purged_codes_any_case: "py_upper raw = codes ''PURGED'' \<longleftrightarrow> str_lower raw = ''purged''"
proof -
  have "py_upper raw = codes ''PURGED'' \<longleftrightarrow> str_upper raw = ''PURGED''"
    by (rule py_upper_plain_word) simp
  then show ?thesis by (simp only: purged_any_case)
qed

lemma poll_tokens_agree:
  "py_upper s = codes ''READY'' \<longleftrightarrow> str_upper s = ''READY''"
  "py_upper s = codes ''EXPIRED'' \<longleftrightarrow> str_upper s = ''EXPIRED''"
  "py_upper s = codes ''PENDING'' \<longleftrightarrow> str_upper s = ''PENDING''"
  by (rule py_upper_plain_word, simp)+

lemma py_upper_latin1:
  "py_upper [CHR ''p'', CHR ''u'', CHR ''r'', CHR ''g'', CHR 0xE9] = [80, 85, 82, 71, 201]"
  "py_upper [CHR 0xDF, CHR 0xB5, CHR 0xFF] = [83, 83, 924, 376]"
  by (simp_all add: py_upper_def upper_codes_def)

lemma haystack_string_name:
  "get fd ''file_name'' = JStr fname \<Longrightarrow> \<exists>h. build_version_haystack fd = Inr h"
  by (simp add: build_version_haystack_def py_or_def)

lemma parse_file_entry:
  assumes p: "parse_file fnm inc exc ds (JDict fd) st = Inr st'"
    and f: "get fd ''_id'' = JStr fid" "fid \<noteq> []" "get fd ''file_name'' = JStr fname" "fname \<noteq> []"
  shows "\<exists>r. fst st' = fst st @ [r] \<and> snd st' = rebuild_step r (snd st) \<and>
             dataset_id r = ds \<and> file_id r = fid \<and> file_name r = fname \<and>
             file_status r = (case get fd ''file_status'' of JStr raw \<Rightarrow> py_upper raw | _ \<Rightarrow> []) \<and>
             selected r = glob_selected fnm fname inc exc"
proof -
  from parse_file_result [OF p] show ?thesis
  proof
    assume same: "st' = st"
    obtain h where h: "build_version_haystack fd = Inr h"
      using haystack_string_name [OF f(3)] by blast
    obtain raw where raw: "py_or (get fd ''file_status'') (JStr []) = JStr raw"
      using p by (cases "py_or (get fd ''file_status'') (JStr [])") (simp_all add: parse_file_def Let_def)
    have "length (fst st') = Suc (length (fst st))"
      using p f h raw by (auto simp: parse_file_def Let_def py_or_def split: if_splits)
    then show ?thesis using same by simp
  next
    assume "\<exists>r. st' = (fst st @ [r], rebuild_step r (snd st)) \<and>
              dataset_id r = ds \<and> file_id r \<noteq> [] \<and> file_name r \<noteq> [] \<and>
              selected r = glob_selected fnm (file_name r) inc exc \<and>
              (\<exists>fd' raw. JDict fd = JDict fd' \<and> get fd' ''_id'' = JStr (file_id r) \<and>
                   get fd' ''file_name'' = JStr (file_name r) \<and>
                   py_or (get fd' ''file_status'') (JStr []) = JStr raw \<and>
                   file_status r = py_upper raw \<and>
                   (\<exists>h. build_version_haystack fd' = Inr h \<and>
                        phytozome_version r = extract_phytozome_version h))"
    then obtain r raw where r: "st' = (fst st @ [r], rebuild_step r (snd st))"
        "dataset_id r = ds" "selected r = glob_selected fnm (file_name r) inc exc"
        "get fd ''_id'' = JStr (file_id r)" "get fd ''file_name'' = JStr (file_name r)"
        "py_or (get fd ''file_status'') (JStr []) = JStr raw" "file_status r = py_upper raw"
      by auto
    have st: "file_status r = (case get fd ''file_status'' of JStr raw \<Rightarrow> py_upper raw | _ \<Rightarrow> [])"
      using r(6,7) by (auto simp: py_or_def py_upper_def split: if_splits json.splits)
    show ?thesis
      using r f st by (intro exI [of _ r]) simp
  qed
qed

lemma parse_files_rows_mono:
  "parse_files fnm inc exc ds fs st = Inr st' \<Longrightarrow> set (fst st) \<subseteq> set (fst st')"
  using parse_files_evolves [of fnm inc exc ds fs st st'] by auto

lemma parse_orgs_rows_mono:
  "parse_orgs fnm inc exc orgs st = Inr st' \<Longrightarrow> set (fst st) \<subseteq> set (fst st')"
  using parse_orgs_evolves [of fnm inc exc orgs st st'] by auto

lemma parse_files_entry:
  assumes "parse_files fnm inc exc ds fs st = Inr st'" "JDict fd \<in> set fs"
    and f: "get fd ''_id'' = JStr fid" "fid \<noteq> []" "get fd ''file_name'' = JStr fname" "fname \<noteq> []"
  shows "\<exists>r\<in>set (fst st'). dataset_id r = ds \<and> file_id r = fid \<and> file_name r = fname \<and>
             file_status r = (case get fd ''file_status'' of JStr raw \<Rightarrow> py_upper raw | _ \<Rightarrow> []) \<and>
             selected r = glob_selected fnm fname inc exc"
  using assms(1,2)
proof (induction fs arbitrary: st)
  case Nil
  then show ?case by simp
next
  case (Cons x fs)
  from Cons.prems(1) obtain st1 where s1: "parse_file fnm inc exc ds x st = Inr st1"
      and s2: "parse_files fnm inc exc ds fs st1 = Inr st'"
    by (auto split: sum.splits)
  show ?case
  proof (cases "x = JDict fd")
    case True
    from parse_file_entry [OF s1 [unfolded True] f] obtain r where
      r: "fst st1 = fst st @ [r]" "dataset_id r = ds" "file_id r = fid" "file_name r = fname"
         "file_status r = (case get fd ''file_status'' of JStr raw \<Rightarrow> py_upper raw | _ \<Rightarrow> [])"
         "selected r = glob_selected fnm fname inc exc"
      by blast
    have "r \<in> set (fst st')"
      using parse_files_rows_mono [OF s2] r(1) by auto
    then show ?thesis using r by blast
  next
    case False
    then have "JDict fd \<in> set fs" using Cons.prems(2) by simp
    from Cons.IH [OF s2 this] show ?thesis .
  qed
qed

lemma parse_org_entry:
  assumes p: "parse_org fnm inc exc (JDict od) st = Inr st'"
    and o: "get od ''id'' = JStr ds" "ds \<noteq> []" "get od ''files'' = JList fs" "JDict fd \<in> set fs"
    and f: "get fd ''_id'' = JStr fid" "fid \<noteq> []" "get fd ''file_name'' = JStr fname" "fname \<noteq> []"
  shows "\<exists>r\<in>set (fst st'). dataset_id r = ds \<and> file_id r = fid \<and> file_name r = fname \<and>
             file_status r = (case get fd ''file_status'' of JStr raw \<Rightarrow> py_upper raw | _ \<Rightarrow> []) \<and>
             selected r = glob_selected fnm fname inc exc"
proof -
  have ne: "fs \<noteq> []" using o(4) by auto
  have "parse_files fnm inc exc ds fs st = Inr st'"
    using p o(1,2,3) ne by (simp add: parse_org_def iter_or_empty_def)
  from parse_files_entry [OF this o(4) f] show ?thesis .
qed

lemma parse_orgs_entry:
  assumes "parse_orgs fnm inc exc orgs st = Inr st'" "JDict od \<in> set orgs"
    and o: "get od ''id'' = JStr ds" "ds \<noteq> []" "get od ''files'' = JList fs" "JDict fd \<in> set fs"
    and f: "get fd ''_id'' = JStr fid" "fid \<noteq> []" "get fd ''file_name'' = JStr fname" "fname \<noteq> []"
  shows "\<exists>r\<in>set (fst st'). dataset_id r = ds \<and> file_id r = fid \<and> file_name r = fname \<and>
             file_status r = (case get fd ''file_status'' of JStr raw \<Rightarrow> py_upper raw | _ \<Rightarrow> []) \<and>
             selected r = glob_selected fnm fname inc exc"
  using assms(1,2)
proof (induction orgs arbitrary: st)
  case Nil
  then show ?case by simp
next
  case (Cons x orgs)
  from Cons.prems(1) obtain st1 where s1: "parse_org fnm inc exc x st = Inr st1"
      and s2: "parse_orgs fnm inc exc orgs st1 = Inr st'"
    by (auto split: sum.splits)
  show ?case
  proof (cases "x = JDict od")
    case True
    from parse_org_entry [OF s1 [unfolded True] o f] obtain r where
      r: "r \<in> set (fst st1)" "dataset_id r = ds" "file_id r = fid" "file_name r = fname"
         "file_status r = (case get fd ''file_status'' of JStr raw \<Rightarrow> py_upper raw | _ \<Rightarrow> [])"
         "selected r = glob_selected fnm fname inc exc"
      by blast
    have "r \<in> set (fst st')"
      using parse_orgs_rows_mono [OF s2] r(1) by auto
    then show ?thesis using r by blast
  next
    case False
    then have "JDict od \<in> set orgs" using Cons.prems(2) by simp
    from Cons.IH [OF s2 this] show ?thesis .
  qed
qed

lemma parse_search_entry:
  assumes p: "parse_search fnm (JDict sd) inc exc = Inr (rows, sel, pur)"
    and s: "get sd ''organisms'' = JList orgs" "JDict od \<in> set orgs"
    and o: "get od ''id'' = JStr ds" "ds \<noteq> []" "get od ''files'' = JList fs" "JDict fd \<in> set fs"
    and f: "get fd ''_id'' = JStr fid" "fid \<noteq> []" "get fd ''file_name'' = JStr fname" "fname \<noteq> []"
  shows "\<exists>r\<in>set rows. dataset_id r = ds \<and> file_id r = fid \<and> file_name r = fname \<and>
             file_status r = (case get fd ''file_status'' of JStr raw \<Rightarrow> py_upper raw | _ \<Rightarrow> []) \<and>
             selected r = glob_selected fnm fname inc exc"
proof -
  have ne: "orgs \<noteq> []" using s(2) by auto
  obtain st where st: "parse_orgs fnm inc exc orgs ([], [], []) = Inr st" and rows: "rows = fst st"
    using p s(1) ne by (auto simp: parse_search_def iter_or_empty_def split: sum.splits)
  from parse_orgs_entry [OF st s(2) o f] show ?thesis using rows by simp
qed

lemma accent_file_fields:
  "get accent_file ''_id'' = JStr ''f9''"
  "get accent_file ''file_name'' = JStr ''z.gff.gz''"
  "get accent_file ''file_status'' = JStr [CHR ''p'', CHR ''u'', CHR ''r'', CHR ''g'', CHR 0xE9]"
  by (simp_all add: get_def accent_file_def)

lemma accent_file_haystack:
  "build_version_haystack accent_file =
     Inr (''z.gff.gz _id f9 file_name z.gff.gz file_status purg'' @ [CHR 0xE9])"
  by (simp add: build_version_haystack_def get_def accent_file_def py_or_def harvest_def
        choose_strings_def has_marker_def char_eval)

lemma accent_file_version:
  "extract_phytozome_version
     (''z.gff.gz _id f9 file_name z.gff.gz file_status purg'' @ [CHR 0xE9]) = None"
  by (simp add: extract_phytozome_version_def PHYTOZOME_VER_PATTERNS_def char_eval)

lemma accent_file_parse:
  "parse_file fnmatch_glob [] [] ''ds1'' (JDict accent_file) ([], [], []) =
     Inr ([accent_row], [(''ds1'', [''f9''])], [])"
  by (simp add: parse_file_def accent_file_fields py_or_def
        accent_file_haystack [simplified] accent_file_version [simplified]
        glob_selected_def accent_row_def py_upper_def upper_codes_def codes_def)

section \<open>Claims about status normalisation\<close>

text \<open>
  Claim C10. The row recorded for a file entry carries the entry's \<open>file_status\<close> as
  \<open>str.upper\<close> gives it (\<open>py_upper\<close>: also for letters outside ASCII), and the empty
  string when the status is missing. A status is recorded as \<open>PURGED\<close> exactly when it
  spells "purged" in some letter case. For every entry of a
  response with such a status whose name is selected, the manifest has a selected row
  with status \<open>PURGED\<close> and the purged map of \<open>parse_search\<close> lists the file under its
  dataset; the purged map that \<open>rebuild_selected_maps\<close> computes from the rows, comparing
  with the literal \<open>PURGED\<close>, is the same map.
\<close>

theorem status_normalized:
  "(parse_file fnm include_globs exclude_globs ds (JDict fd) st = Inr st' \<longrightarrow>
      get fd ''_id'' = JStr fid \<longrightarrow> fid \<noteq> [] \<longrightarrow>
      get fd ''file_name'' = JStr fname \<longrightarrow> fname \<noteq> [] \<longrightarrow>
      (\<exists>r. fst st' = fst st @ [r] \<and> file_id r = fid \<and>
           file_status r =
             (case get fd ''file_status'' of JStr raw \<Rightarrow> py_upper raw | _ \<Rightarrow> []))) \<and>
   (py_upper raw = codes ''PURGED'' \<longleftrightarrow> str_lower raw = ''purged'') \<and>
   (parse_search fnm (JDict sd) include_globs exclude_globs = Inr (rows, sel, pur) \<longrightarrow>
      (\<forall>r\<in>set rows. \<exists>raw. file_status r = py_upper raw) \<and>
      snd (rebuild_selected_maps rows) = pur \<and>
      (get sd ''organisms'' = JList orgs \<longrightarrow> JDict od \<in> set orgs \<longrightarrow>
       get od ''id'' = JStr ds' \<longrightarrow> ds' \<noteq> [] \<longrightarrow>
       get od ''files'' = JList fs \<longrightarrow> JDict fd' \<in> set fs \<longrightarrow>
       get fd' ''_id'' = JStr fid' \<longrightarrow> fid' \<noteq> [] \<longrightarrow>
       get fd' ''file_name'' = JStr fname' \<longrightarrow> fname' \<noteq> [] \<longrightarrow>
       get fd' ''file_status'' = JStr raw' \<longrightarrow> str_lower raw' = ''purged'' \<longrightarrow>
       glob_selected fnm fname' include_globs exclude_globs \<longrightarrow>
         (\<exists>r\<in>set rows. dataset_id r = ds' \<and> file_id r = fid' \<and>
              file_status r = codes ''PURGED'' \<and> selected r) \<and>
         (\<exists>ids. map_of pur ds' = Some ids \<and> fid' \<in> set ids)))"
proof (intro conjI impI)
  assume "parse_file fnm include_globs exclude_globs ds (JDict fd) st = Inr st'"
    "get fd ''_id'' = JStr fid" "fid \<noteq> []" "get fd ''file_name'' = JStr fname" "fname \<noteq> []"
  from parse_file_entry [OF this]
  show "\<exists>r. fst st' = fst st @ [r] \<and> file_id r = fid \<and>
           file_status r =
             (case get fd ''file_status'' of JStr raw \<Rightarrow> py_upper raw | _ \<Rightarrow> [])"
    by blast
next
  show "py_upper raw = codes ''PURGED'' \<longleftrightarrow> str_lower raw = ''purged''"
    by (rule purged_codes_any_case)
next
  assume p: "parse_search fnm (JDict sd) include_globs exclude_globs = Inr (rows, sel, pur)"
  show "\<forall>r\<in>set rows. \<exists>raw. file_status r = py_upper raw"
    using parse_search_rows(2) [OF p] by simp
  show "snd (rebuild_selected_maps rows) = pur"
    using parse_search_rows(1) [OF p] by (metis snd_conv)
next
  assume p: "parse_search fnm (JDict sd) include_globs exclude_globs = Inr (rows, sel, pur)"
    and s: "get sd ''organisms'' = JList orgs" "JDict od \<in> set orgs"
    and o: "get od ''id'' = JStr ds'" "ds' \<noteq> []" "get od ''files'' = JList fs" "JDict fd' \<in> set fs"
    and f: "get fd' ''_id'' = JStr fid'" "fid' \<noteq> []" "get fd' ''file_name'' = JStr fname'" "fname' \<noteq> []"
    and u: "get fd' ''file_status'' = JStr raw'" "str_lower raw' = ''purged''"
           "glob_selected fnm fname' include_globs exclude_globs"
  from parse_search_entry [OF p s o f] obtain r where
    r: "r \<in> set rows" "dataset_id r = ds'" "file_id r = fid'"
       "file_status r = (case get fd' ''file_status'' of JStr raw \<Rightarrow> py_upper raw | _ \<Rightarrow> [])"
       "selected r = glob_selected fnm fname' include_globs exclude_globs"
    by blast
  have st: "file_status r = codes ''PURGED''"
    using r(4) u(1,2) purged_codes_any_case [of raw'] by simp
  then show "\<exists>r\<in>set rows. dataset_id r = ds' \<and> file_id r = fid' \<and>
              file_status r = codes ''PURGED'' \<and> selected r"
    using r u(3) by blast
  have rb: "rebuild_selected_maps rows = (sel, pur)"
    using parse_search_rows(1) [OF p] by simp
  have m: "fid' \<in> set (ids_of (\<lambda>r. selected r \<and> file_status r = codes ''PURGED'') rows ds')"
    using r st u(3) by (force simp: ids_of_def)
  then have "ids_of (\<lambda>r. selected r \<and> file_status r = codes ''PURGED'') rows ds' \<noteq> []"
    by auto
  then have "map_of pur ds' =
      Some (dedup (ids_of (\<lambda>r. selected r \<and> file_status r = codes ''PURGED'') rows ds'))"
    using rebuild_maps_char(4) [OF rb, of ds'] by simp
  then show "\<exists>ids. map_of pur ds' = Some ids \<and> fid' \<in> set ids"
    using m by (simp add: set_dedup)
qed

theorem status_normalized_witness:
  "parse_file fnmatch_glob [''*.gff*.gz''] [] ''ds1'' (JDict sample_v13) ([], [], []) =
     Inr ([sample_row_v13], [(''ds1'', [''f13''])], [(''ds1'', [''f13''])]) \<and>
   get sample_v13 ''file_status'' = JStr ''purged'' \<and>
   file_status sample_row_v13 = codes ''PURGED'' \<and>
   str_lower ''purged'' = ''purged'' \<and> py_upper ''purged'' = codes ''PURGED'' \<and>
   parse_search fnmatch_glob sample_response [''*.gff*.gz''] [] =
     Inr (sample_rows, [(''ds1'', [''f12'', ''f13''])], [(''ds1'', [''f13''])]) \<and>
   snd (rebuild_selected_maps sample_rows) = [(''ds1'', [''f13''])] \<and>
   (\<exists>ids. map_of [(''ds1'', [''f13''])] ''ds1'' = Some ids \<and> ''f13'' \<in> set ids) \<and>
   parse_file fnmatch_glob [] [] ''ds1'' (JDict accent_file) ([], [], []) =
     Inr ([accent_row], [(''ds1'', [''f9''])], []) \<and>
   file_status accent_row = py_upper [CHR ''p'', CHR ''u'', CHR ''r'', CHR ''g'', CHR 0xE9] \<and>
   file_status accent_row = [80, 85, 82, 71, 201]"
proof -
  have acc: "\<exists>r. fst ([accent_row], [(''ds1'', [''f9''])], []::idmap) =
              fst ([]::row list, []::idmap, []::idmap) @ [r] \<and> file_id r = ''f9'' \<and>
              file_status r = (case get accent_file ''file_status'' of
                                 JStr raw \<Rightarrow> py_upper raw | _ \<Rightarrow> [])"
    using status_normalized [where fnm = fnmatch_glob and include_globs = "[]"
        and exclude_globs = "[]" and ds = "''ds1''" and fd = accent_file
        and st = "([], [], [])" and st' = "([accent_row], [(''ds1'', [''f9''])], [])"
        and fid = "''f9''" and fname = "''z.gff.gz''"]
      accent_file_parse
    by (simp add: accent_file_fields)
  then have acc1: "file_status accent_row =
      py_upper [CHR ''p'', CHR ''u'', CHR ''r'', CHR ''g'', CHR 0xE9]"
    by (simp add: accent_file_fields)
  have acc2: "file_status accent_row = [80, 85, 82, 71, 201]"
    unfolding acc1 by (rule py_upper_latin1(1))
  note t = status_normalized [where fnm = fnmatch_glob and include_globs = "[''*.gff*.gz'']"
      and exclude_globs = "[]" and ds = "''ds1''" and fd = sample_v13 and st = "([], [], [])"
      and st' = "([sample_row_v13], [(''ds1'', [''f13''])], [(''ds1'', [''f13''])])"
      and fid = "''f13''" and fname = "''x.gff.gz''" and raw = "''purged''"
      and sd = "[(''organisms'', JList [JDict sample_org])]" and rows = sample_rows
      and sel = "[(''ds1'', [''f12'', ''f13''])]" and pur = "[(''ds1'', [''f13''])]"
      and orgs = "[JDict sample_org]" and od = sample_org and ds' = "''ds1''"
      and fs = sample_files and fd' = sample_v13 and fid' = "''f13''"
      and fname' = "''x.gff.gz''" and raw' = "''purged''"]
  have pf: "parse_file fnmatch_glob [''*.gff*.gz''] [] ''ds1'' (JDict sample_v13) ([], [], []) =
     Inr ([sample_row_v13], [(''ds1'', [''f13''])], [(''ds1'', [''f13''])])"
    by (simp add: sample_parse_file_v13)
  have ps: "parse_search fnmatch_glob (JDict [(''organisms'', JList [JDict sample_org])])
              [''*.gff*.gz''] [] =
     Inr (sample_rows, [(''ds1'', [''f12'', ''f13''])], [(''ds1'', [''f13''])])"
    using sample_parse by (simp add: sample_response_def)
  have h: "get [(''organisms'', JList [JDict sample_org])] ''organisms'' = JList [JDict sample_org]"
      "JDict sample_org \<in> set [JDict sample_org]"
      "get sample_org ''id'' = JStr ''ds1''" "get sample_org ''files'' = JList sample_files"
      "JDict sample_v13 \<in> set sample_files"
      "str_lower ''purged'' = ''purged''"
      "glob_selected fnmatch_glob ''x.gff.gz'' [''*.gff*.gz''] []"
    by (simp_all add: get_def sample_org_def sample_files_def char_eval sample_globs)
  have a: "\<exists>r. fst ([sample_row_v13], [(''ds1'', [''f13''])], [(''ds1'', [''f13''])]) =
              fst ([]::row list, []::idmap, []::idmap) @ [r] \<and> file_id r = ''f13'' \<and>
              file_status r = (case get sample_v13 ''file_status'' of
                                 JStr raw \<Rightarrow> py_upper raw | _ \<Rightarrow> [])"
    using t pf by (simp add: sample_v13_fields)
  then have a': "file_status sample_row_v13 = codes ''PURGED''"
    by (simp add: sample_v13_fields char_eval)
  have u: "py_upper ''purged'' = codes ''PURGED''"
    using t h(6) by blast
  have b: "snd (rebuild_selected_maps sample_rows) = [(''ds1'', [''f13''])]"
    using t ps by blast
  have c: "\<exists>ids. map_of [(''ds1'', [''f13''])] ''ds1'' = Some ids \<and> ''f13'' \<in> set ids"
    using t ps h by (simp add: sample_v13_fields)
  show ?thesis
    using pf a' h(6) u sample_parse b c accent_file_parse acc1 acc2
    by (simp add: sample_v13_fields)
qed

section \<open>Facts about harvesting\<close>

lemma collect_bound:
  "length (collect_strings obj out m) \<le> max (length out) m"
  "length (collect_items kvs out m) \<le> max (length out) m"
  "length (collect_elems vs out m) \<le> max (length out) m"
proof (induction obj out m and kvs out m and vs out m
       rule: collect_strings_collect_items_collect_elems.induct)
  case (1 obj out max_strings)
  then show ?case by (cases obj) auto
next
  case (2 out max_strings)
  then show ?case by simp
next
  case (3 kv kvs out max_strings)
  show ?case
  proof (cases "max_strings \<le> length out")
    case True
    then show ?thesis by simp
  next
    case False
    have a: "length (collect_strings (snd kv) (out @ [fst kv]) max_strings) \<le> max_strings"
      using 3(1) [OF False] False by simp
    have "length (collect_items kvs (collect_strings (snd kv) (out @ [fst kv]) max_strings) max_strings)
          \<le> max (length (collect_strings (snd kv) (out @ [fst kv]) max_strings)) max_strings"
      using 3(2) [OF False] .
    then show ?thesis using a False by simp
  qed
next
  case (4 out max_strings)
  then show ?case by simp
next
  case (5 v vs out max_strings)
  show ?case
  proof (cases "max_strings \<le> length out")
    case True
    then show ?thesis by simp
  next
    case False
    have a: "length (collect_strings v out max_strings) \<le> max_strings"
      using 5(1) [OF False] False by simp
    have "length (collect_elems vs (collect_strings v out max_strings) max_strings)
          \<le> max (length (collect_strings v out max_strings)) max_strings"
      using 5(2) [OF False] .
    then show ?thesis using a False by simp
  qed
qed

lemma harvest_bound: "length (harvest file_obj fname) \<le> 2000"
  using collect_bound(1) [of "JDict file_obj" "if fname \<noteq> [] then [fname] else []" 2000]
  by (auto simp: harvest_def split: if_splits)

lemma haystack_bound: "build_version_haystack file_obj = Inr h \<Longrightarrow> length h \<le> 200000"
  by (auto simp: build_version_haystack_def Let_def split: json.splits if_splits)

lemma collect_elems_replicate:
  "collect_elems (replicate n (JStr s)) out m = out @ replicate (min n (m - length out)) s"
proof (induction n arbitrary: out)
  case 0
  then show ?case by simp
next
  case (Suc n)
  show ?case
  proof (cases "m \<le> length out")
    case True
    then show ?thesis by simp
  next
    case False
    then have "min (Suc n) (m - length out) = Suc (min n (m - Suc (length out)))"
      by arith
    then show ?thesis using False Suc.IH [of "out @ [s]"]
      by (simp add: replicate_append_same)
  qed
qed

lemma haystack_string:
  "py_or (get file_obj ''file_name'') (JStr []) = JStr fname \<Longrightarrow>
   build_version_haystack file_obj =
     Inr (take 200000 (join_space (choose_strings (harvest file_obj fname))))"
  by (simp add: build_version_haystack_def)

lemma stack_refines:
  "collect_strings_stack d obj out m = Inr r \<Longrightarrow> r = collect_strings obj out m"
  "collect_items_stack d kvs out m = Inr r \<Longrightarrow> r = collect_items kvs out m"
  "collect_elems_stack d vs out m = Inr r \<Longrightarrow> r = collect_elems vs out m"
proof (induction d obj out m and d kvs out m and d vs out m arbitrary: r and r and r
       rule: collect_strings_stack_collect_items_stack_collect_elems_stack.induct)
  case (1 frames obj out max_strings)
  then show ?case by (cases obj) (auto split: if_splits)
next
  case (2 frames out max_strings)
  then show ?case by simp
next
  case (3 frames kv kvs out max_strings)
  show ?case
  proof (cases "max_strings \<le> length out")
    case True
    then show ?thesis using 3(3) by simp
  next
    case False
    then obtain out' where
      a: "collect_strings_stack frames (snd kv) (out @ [fst kv]) max_strings = Inr out'"
      and b: "collect_items_stack frames kvs out' max_strings = Inr r"
      using 3(3) by (auto split: sum.splits)
    have "out' = collect_strings (snd kv) (out @ [fst kv]) max_strings"
      using 3(1) [OF False a] .
    moreover have "r = collect_items kvs out' max_strings"
      using 3(2) [OF False a b] .
    ultimately show ?thesis using False by simp
  qed
next
  case (4 frames out max_strings)
  then show ?case by simp
next
  case (5 frames v vs out max_strings)
  show ?case
  proof (cases "max_strings \<le> length out")
    case True
    then show ?thesis using 5(3) by simp
  next
    case False
    then obtain out' where
      a: "collect_strings_stack frames v out max_strings = Inr out'"
      and b: "collect_elems_stack frames vs out' max_strings = Inr r"
      using 5(3) by (auto split: sum.splits)
    have "out' = collect_strings v out max_strings"
      using 5(1) [OF False a] .
    moreover have "r = collect_elems vs out' max_strings"
      using 5(2) [OF False a b] .
    ultimately show ?thesis using False by simp
  qed
qed

lemma stack_suffices:
  "call_depth obj \<le> d \<Longrightarrow> collect_strings_stack d obj out m = Inr (collect_strings obj out m)"
  "call_depth_items kvs \<le> d \<Longrightarrow> collect_items_stack d kvs out m = Inr (collect_items kvs out m)"
  "call_depth_elems vs \<le> d \<Longrightarrow> collect_elems_stack d vs out m = Inr (collect_elems vs out m)"
proof (induction d obj out m and d kvs out m and d vs out m
       rule: collect_strings_stack_collect_items_stack_collect_elems_stack.induct)
  case (1 frames obj out max_strings)
  then show ?case by (cases obj) (auto split: if_splits)
next
  case (2 frames out max_strings)
  then show ?case by simp
next
  case (3 frames kv kvs out max_strings)
  then show ?case by auto
next
  case (4 frames out max_strings)
  then show ?case by simp
next
  case (5 frames v vs out max_strings)
  then show ?case by auto
qed

lemma collect_nested:
  "length out < m \<Longrightarrow>
   collect_strings_stack d (nested k) out m = (if k < d then Inr out else Inl RecursionError)"
proof (induction k arbitrary: d)
  case 0
  then show ?case by simp
next
  case (Suc k)
  show ?case
  proof (cases "d = 0")
    case True
    then show ?thesis by simp
  next
    case False
    then show ?thesis using Suc.prems Suc.IH [OF Suc.prems, of "d - 1"] by auto
  qed
qed

lemma stack_cap:
  "collect_strings_stack d obj out m = Inr strings \<Longrightarrow> length strings \<le> max (length out) m"
  using stack_refines(1) [of d obj out m strings] collect_bound(1) [of obj out m] by simp

lemma haystack_stack_refines:
  assumes "build_version_haystack_stack d file_obj = Inr h"
  shows "build_version_haystack file_obj = Inr h"
proof (cases "\<exists>fname. py_or (get file_obj ''file_name'') (JStr []) = JStr fname")
  case True
  then obtain fname where n: "py_or (get file_obj ''file_name'') (JStr []) = JStr fname"
    by blast
  from assms n obtain strings where s: "harvest_stack d file_obj fname = Inr strings"
    and h: "h = take 200000 (join_space (choose_strings strings))"
    by (auto simp: build_version_haystack_stack_def split: sum.splits)
  have "strings = harvest file_obj fname"
    using stack_refines(1) [OF s [unfolded harvest_stack_def]]
    by (simp add: harvest_def del: collect_strings.simps)
  then show ?thesis using n h by (simp add: build_version_haystack_def)
next
  case False
  from assms False obtain strings where
    s: "collect_strings_stack d (JDict file_obj) [] 1999 = Inr strings"
    and h: "filter has_marker strings \<noteq> []"
           "h = take 200000 (join_space (filter has_marker strings))"
    by (auto simp: build_version_haystack_stack_def Let_def
          split: json.splits sum.splits if_splits
          simp del: collect_strings_stack.simps)
  have "strings = collect_strings (JDict file_obj) [] 1999"
    using stack_refines(1) [OF s] .
  then show ?thesis using False h
    by (auto simp: build_version_haystack_def Let_def split: json.splits
          simp del: collect_strings.simps)
qed

lemma haystack_stack_suffices:
  "call_depth (JDict file_obj) \<le> d \<Longrightarrow>
   build_version_haystack_stack d file_obj = build_version_haystack file_obj"
  using stack_suffices(1) [of "JDict file_obj" d]
  by (simp add: build_version_haystack_stack_def build_version_haystack_def harvest_stack_def
        harvest_def Let_def
      del: collect_strings_stack.simps collect_strings.simps call_depth.simps
      split: json.splits)

lemma detect_stack_suffices:
  "call_depth (JDict file_obj) \<le> d \<Longrightarrow> detect_version_stack d file_obj = detect_version file_obj"
  by (simp add: detect_version_stack_def detect_version_def haystack_stack_suffices)

lemma call_depth_replicate:
  "call_depth_elems (replicate n (JStr s)) = (if n = 0 then 0 else 1)"
  by (induction n) auto

lemma deep_file_harvest:
  "harvest_stack 1000 deep_file ''x.gff3.gz'' = Inl RecursionError"
  by (simp add: harvest_stack_def deep_file_def collect_nested
        collect_strings_stack.simps(1) [of _ "JDict kvs" for kvs]
        collect_strings_stack.simps(1) [of _ "JStr s" for s]
      del: collect_strings_stack.simps(1))

lemma deep_file_detect: "detect_version_stack 1000 deep_file = Inl RecursionError"
proof -
  have "py_or (get deep_file ''file_name'') (JStr []) = JStr ''x.gff3.gz''"
    by (simp add: py_or_def get_def deep_file_def)
  then show ?thesis
    by (simp add: detect_version_stack_def build_version_haystack_stack_def deep_file_harvest)
qed

lemma numeric_name_detect: "detect_version_stack 1000 numeric_name_file = Inl TypeError"
  by (simp add: detect_version_stack_def build_version_haystack_stack_def numeric_name_file_def
        py_or_def get_def has_marker_def char_eval)

lemma sample_v12_depth: "call_depth (JDict sample_v12) = 3"
  by (simp add: sample_v12_def)






section \<open>Claims about version detection\<close>

text \<open>
  Claim C7, as the code has it. The cap bounds the number of strings, not the nesting
  depth. Whenever harvesting returns, it has collected at most 2000 strings (at most
  the cap, or the length of the list it started with), and these are the strings of the
  traversal run to its end; a haystack that is returned has at most 200000 characters.
  For a file object whose nesting depth is within the frames the interpreter has left
  and whose name is a string or absent, harvesting, the haystack and detection all
  return, detection with a version or none. This includes a file object holding a list
  of more than 2000 strings, which is harvested to exactly 2000 entries.
\<close>

theorem harvest_cap_within_stack:
  "(\<forall>strings. collect_strings_stack frames obj out max_strings = Inr strings \<longrightarrow>
      length strings \<le> max (length out) max_strings) \<and>
   (\<forall>strings. harvest_stack frames file_obj fname = Inr strings \<longrightarrow>
      length strings \<le> 2000 \<and> strings = harvest file_obj fname) \<and>
   (\<forall>h. build_version_haystack_stack frames file_obj = Inr h \<longrightarrow> length h \<le> 200000) \<and>
   (call_depth (JDict file_obj) \<le> frames \<longrightarrow>
    py_or (get file_obj ''file_name'') (JStr []) = JStr fname \<longrightarrow>
      (\<exists>strings h v.
          harvest_stack frames file_obj fname = Inr strings \<and> length strings \<le> 2000 \<and>
          build_version_haystack_stack frames file_obj = Inr h \<and> length h \<le> 200000 \<and>
          detect_version_stack frames file_obj = Inr v)) \<and>
   (2000 < n \<longrightarrow> 3 \<le> frames \<longrightarrow>
      (\<exists>strings v.
          harvest_stack frames [(''tags'', JList (replicate n (JStr s)))] [] = Inr strings \<and>
          length strings = 2000 \<and>
          detect_version_stack frames [(''tags'', JList (replicate n (JStr s)))] = Inr v))"
proof (intro conjI impI allI)
  fix strings
  assume "collect_strings_stack frames obj out max_strings = Inr strings"
  then show "length strings \<le> max (length out) max_strings" by (rule stack_cap)
next
  fix strings
  assume a: "harvest_stack frames file_obj fname = Inr strings"
  have e: "strings = harvest file_obj fname"
    using stack_refines(1) [OF a [unfolded harvest_stack_def]]
    by (simp add: harvest_def del: collect_strings.simps)
  show "strings = harvest file_obj fname" by (rule e)
  show "length strings \<le> 2000" unfolding e by (rule harvest_bound)
next
  fix h
  assume "build_version_haystack_stack frames file_obj = Inr h"
  then have "build_version_haystack file_obj = Inr h" by (rule haystack_stack_refines)
  then show "length h \<le> 200000" by (rule haystack_bound)
next
  assume d: "call_depth (JDict file_obj) \<le> frames"
    and n: "py_or (get file_obj ''file_name'') (JStr []) = JStr fname"
  have a: "harvest_stack frames file_obj fname = Inr (harvest file_obj fname)"
    using stack_suffices(1) [OF d] by (simp add: harvest_stack_def harvest_def
        del: collect_strings_stack.simps collect_strings.simps)
  have b: "build_version_haystack_stack frames file_obj =
           Inr (take 200000 (join_space (choose_strings (harvest file_obj fname))))"
    using haystack_stack_suffices [OF d] haystack_string [OF n] by simp
  have c: "detect_version_stack frames file_obj =
           Inr (extract_phytozome_version
                  (take 200000 (join_space (choose_strings (harvest file_obj fname)))))"
    using b by (simp add: detect_version_stack_def)
  show "\<exists>strings h v.
          harvest_stack frames file_obj fname = Inr strings \<and> length strings \<le> 2000 \<and>
          build_version_haystack_stack frames file_obj = Inr h \<and> length h \<le> 200000 \<and>
          detect_version_stack frames file_obj = Inr v"
    using a b c harvest_bound [of file_obj fname] by simp
next
  assume n: "2000 < n" and f: "3 \<le> frames"
  let ?f = "[(''tags'', JList (replicate n (JStr s)))]"
  have d: "call_depth (JDict ?f) \<le> frames"
    using n f by (simp add: call_depth_replicate)
  have hv: "harvest ?f [] = ''tags'' # replicate (min n 1999) s"
    by (simp add: harvest_def collect_elems_replicate)
  have a: "harvest_stack frames ?f [] = Inr (harvest ?f [])"
    using stack_suffices(1) [OF d] by (simp add: harvest_stack_def harvest_def
        del: collect_strings_stack.simps collect_strings.simps)
  have nm: "py_or (get ?f ''file_name'') (JStr []) = JStr []"
    by (simp add: py_or_def get_def)
  have c: "\<exists>v. detect_version_stack frames ?f = Inr v"
    using detect_stack_suffices [OF d] haystack_string [OF nm]
    by (simp add: detect_version_def)
  have l: "length (harvest ?f []) = 2000"
    unfolding hv using n by simp
  show "\<exists>strings v. harvest_stack frames ?f [] = Inr strings \<and> length strings = 2000 \<and>
          detect_version_stack frames ?f = Inr v"
    using a l c by blast
qed

theorem harvest_cap_within_stack_witness:
  "call_depth (JDict sample_v12) \<le> 10 \<and>
   py_or (get sample_v12 ''file_name'') (JStr []) = JStr ''x.gff3.gz'' \<and>
   (\<exists>strings. harvest_stack 10 sample_v12 ''x.gff3.gz'' = Inr strings \<and> length strings \<le> 2000) \<and>
   build_version_haystack_stack 10 sample_v12 = Inr ''Phytozome/PhytozomeV12/x'' \<and>
   length ''Phytozome/PhytozomeV12/x'' \<le> 200000 \<and>
   detect_version_stack 10 sample_v12 = Inr (Some 12) \<and>
   (2000::nat) < 2001 \<and> (3::nat) \<le> 10 \<and>
   (\<exists>strings. harvest_stack 10 [(''tags'', JList (replicate 2001 (JStr ''a'')))] [] = Inr strings \<and>
       length strings = 2000)"
proof -
  note t = harvest_cap_within_stack [where frames = 10 and file_obj = sample_v12
      and fname = "''x.gff3.gz''" and n = 2001 and s = "''a''"]
  have d: "call_depth (JDict sample_v12) \<le> 10"
    by (simp add: sample_v12_depth del: call_depth.simps)
  have a: "py_or (get sample_v12 ''file_name'') (JStr []) = JStr ''x.gff3.gz''"
    by (simp add: sample_v12_fields py_or_def)
  have e: "\<exists>strings h v.
          harvest_stack 10 sample_v12 ''x.gff3.gz'' = Inr strings \<and> length strings \<le> 2000 \<and>
          build_version_haystack_stack 10 sample_v12 = Inr h \<and> length h \<le> 200000 \<and>
          detect_version_stack 10 sample_v12 = Inr v"
    using t d a by blast
  have b: "build_version_haystack_stack 10 sample_v12 = Inr ''Phytozome/PhytozomeV12/x''"
    using haystack_stack_suffices [OF d] sample_v12_haystack by simp
  have c: "detect_version_stack 10 sample_v12 = Inr (Some 12)"
    using b by (simp add: detect_version_stack_def sample_versions)
  have l: "length ''Phytozome/PhytozomeV12/x'' \<le> 200000"
    using t b by blast
  have n: "(2000::nat) < 2001" "(3::nat) \<le> 10" by simp_all
  have p: "\<exists>strings v.
          harvest_stack 10 [(''tags'', JList (replicate 2001 (JStr ''a'')))] [] = Inr strings \<and>
          length strings = 2000 \<and>
          detect_version_stack 10 [(''tags'', JList (replicate 2001 (JStr ''a'')))] = Inr v"
    using t n by blast
  show ?thesis using d a e b l c n p by blast
qed

text \<open>
  The claim as stated, for every file object, fails: in \<open>deep_file\<close> a value is nested
  1001 lists deep, and with the 1000 frames of CPython's default limit the traversal
  raises \<open>RecursionError\<close> although the object holds five strings; in
  \<open>numeric_name_file\<close> the name is a number, no string mentions the marker, and
  \<open>str.join\<close> raises \<open>TypeError\<close>.
\<close>

theorem harvest_cap_counterexample:
  "detect_version_stack 1000 deep_file = Inl RecursionError \<and>
   detect_version_stack 1000 numeric_name_file = Inl TypeError"
  using deep_file_detect numeric_name_detect by simp



section \<open>Facts about the version patterns\<close>




















section \<open>Facts about the poll loop\<close>

lemma poll_loop_skip:
  assumes "0 \<le> poll"
    and "\<forall>i<k. str_upper (remote (n + i)) \<noteq> ''READY'' \<and> str_upper (remote (n + i)) \<noteq> ''EXPIRED''"
    and "\<forall>j. 0 < j \<and> j \<le> k \<longrightarrow> waited + int j * poll < maxw"
  shows "poll_loop remote poll maxw n waited =
         poll_loop remote poll maxw (n + k) (waited + int k * poll)"
  using assms(2,3)
proof (induction k arbitrary: n waited)
  case 0
  then show ?case by simp
next
  case (Suc k)
  have p0: "str_upper (remote n) \<noteq> ''READY''" "str_upper (remote n) \<noteq> ''EXPIRED''"
    using Suc.prems(1) [rule_format, of 0] by simp_all
  have w1: "waited + poll < maxw"
    using Suc.prems(2) [rule_format, of 1] by simp
  have step: "poll_loop remote poll maxw n waited =
              poll_loop remote poll maxw (n + 1) (waited + poll)"
    using p0 w1 assms(1) by (subst poll_loop.simps) simp
  have a: "\<forall>i<k. str_upper (remote (n + 1 + i)) \<noteq> ''READY'' \<and>
                 str_upper (remote (n + 1 + i)) \<noteq> ''EXPIRED''"
  proof (intro allI impI)
    fix i assume "i < k"
    then have "Suc i < Suc k" by simp
    from Suc.prems(1) [rule_format, OF this]
    show "str_upper (remote (n + 1 + i)) \<noteq> ''READY'' \<and>
          str_upper (remote (n + 1 + i)) \<noteq> ''EXPIRED''"
      by simp
  qed
  have b: "\<forall>j. 0 < j \<and> j \<le> k \<longrightarrow> waited + poll + int j * poll < maxw"
  proof (intro allI impI)
    fix j assume "0 < j \<and> j \<le> k"
    then have "0 < Suc j \<and> Suc j \<le> Suc k" by simp
    from Suc.prems(2) [rule_format, OF this]
    show "waited + poll + int j * poll < maxw"
      by (simp add: algebra_simps)
  qed
  have "poll_loop remote poll maxw (n + 1) (waited + poll) =
        poll_loop remote poll maxw (n + 1 + k) (waited + poll + int k * poll)"
    by (rule Suc.IH [OF a b])
  then show ?case using step by (simp add: algebra_simps)
qed

lemma poll_loop_ready:
  "str_upper (remote n) = ''READY'' \<Longrightarrow>
   poll_loop remote poll maxw n waited = Some (Ready, n + 1, waited)"
  by (subst poll_loop.simps) simp

lemma poll_loop_expired:
  "str_upper (remote n) = ''EXPIRED'' \<Longrightarrow>
   poll_loop remote poll maxw n waited = Some (Expired, n + 1, waited)"
  by (subst poll_loop.simps) simp

lemma poll_loop_timeout:
  "str_upper (remote n) \<noteq> ''READY'' \<Longrightarrow> str_upper (remote n) \<noteq> ''EXPIRED'' \<Longrightarrow>
   0 \<le> poll \<Longrightarrow> maxw \<le> waited + poll \<Longrightarrow>
   poll_loop remote poll maxw n waited = Some (TimedOut, n + 1, waited + poll)"
  by (subst poll_loop.simps) simp

lemma sample_remote_status:
  "str_upper (remote_ready_third 0) = ''PENDING''"
  "str_upper (remote_ready_third 1) = ''PENDING''"
  "str_upper (remote_ready_third 2) = ''READY''"
  "str_upper (remote_expired_second 0) = ''PENDING''"
  "str_upper (remote_expired_second 1) = ''EXPIRED''"
  "str_upper (remote_pending n) = ''PENDING''"
  by (simp_all add: remote_ready_third_def remote_expired_second_def remote_pending_def char_eval)

section \<open>Claims about the restore poll loop\<close>

text \<open>
  Claim C2. For every sequence of remote status tokens and every poll interval that is
  not negative: when the first three tokens are PENDING, PENDING, READY and the maximum
  wait exceeds two poll intervals, \<open>ensure_restored\<close> succeeds after three polls and
  exactly two poll intervals of waiting; when poll number \<open>k\<close> is the first to see a
  terminal token and no timeout came before it, and that token is EXPIRED, the
  coordinator fails with the expired failure at once, after \<open>k + 1\<close> polls; and when the
  first \<open>m + 1\<close> polls see no terminal token and the waiting time first reaches the
  maximum after the sleep that follows poll \<open>m\<close>, it fails with the timeout failure
  without polling again.
\<close>

theorem restore_poll_loop:
  "(purged \<noteq> [] \<longrightarrow> 0 \<le> poll \<longrightarrow> 2 * poll < maxw \<longrightarrow>
    str_upper (remote 0) = ''PENDING'' \<longrightarrow> str_upper (remote 1) = ''PENDING'' \<longrightarrow>
    str_upper (remote 2) = ''READY'' \<longrightarrow>
      ensure_restored purged (Some url) remote poll maxw = Some (Ready, 3, 2 * poll)) \<and>
   (purged \<noteq> [] \<longrightarrow> 0 \<le> poll \<longrightarrow>
    (\<forall>i<k. str_upper (remote i) \<noteq> ''READY'' \<and> str_upper (remote i) \<noteq> ''EXPIRED'') \<longrightarrow>
    (\<forall>j. 0 < j \<and> j \<le> k \<longrightarrow> int j * poll < maxw) \<longrightarrow>
    str_upper (remote k) = ''EXPIRED'' \<longrightarrow>
      ensure_restored purged (Some url) remote poll maxw = Some (Expired, k + 1, int k * poll)) \<and>
   (purged \<noteq> [] \<longrightarrow> 0 \<le> poll \<longrightarrow>
    (\<forall>i\<le>m. str_upper (remote i) \<noteq> ''READY'' \<and> str_upper (remote i) \<noteq> ''EXPIRED'') \<longrightarrow>
    (\<forall>j. 0 < j \<and> j \<le> m \<longrightarrow> int j * poll < maxw) \<longrightarrow>
    maxw \<le> int (m + 1) * poll \<longrightarrow>
      ensure_restored purged (Some url) remote poll maxw =
        Some (TimedOut, m + 1, int (m + 1) * poll))"
proof (intro conjI impI)
  assume ne: "purged \<noteq> []" and p: "0 \<le> poll" and w: "2 * poll < maxw"
    and s: "str_upper (remote 0) = ''PENDING''" "str_upper (remote 1) = ''PENDING''"
           "str_upper (remote 2) = ''READY''"
  have a: "\<forall>i<2. str_upper (remote (0 + i)) \<noteq> ''READY'' \<and> str_upper (remote (0 + i)) \<noteq> ''EXPIRED''"
  proof (intro allI impI)
    fix i :: nat assume "i < 2"
    then consider "i = 0" | "i = 1" by linarith
    then show "str_upper (remote (0 + i)) \<noteq> ''READY'' \<and> str_upper (remote (0 + i)) \<noteq> ''EXPIRED''"
      using s by cases simp_all
  qed
  have b: "\<forall>j. 0 < j \<and> j \<le> 2 \<longrightarrow> 0 + int j * poll < maxw"
  proof (intro allI impI)
    fix j :: nat assume "0 < j \<and> j \<le> 2"
    then consider "j = 1" | "j = 2" by linarith
    then show "0 + int j * poll < maxw"
      using p w by cases simp_all
  qed
  have sk: "poll_loop remote poll maxw 0 0 = poll_loop remote poll maxw (0 + 2) (0 + int 2 * poll)"
    by (rule poll_loop_skip [OF p a b])
  have e2: "(0::nat) + 2 = 2" "0 + int 2 * poll = 2 * poll" "(2::nat) + 1 = 3"
    by simp_all
  have "poll_loop remote poll maxw 0 0 = poll_loop remote poll maxw 2 (2 * poll)"
    using sk unfolding e2 .
  also have "\<dots> = Some (Ready, 3, 2 * poll)"
    using poll_loop_ready [of remote 2 poll maxw "2 * poll", OF s(3)] unfolding e2 .
  finally show "ensure_restored purged (Some url) remote poll maxw = Some (Ready, 3, 2 * poll)"
    using ne by (simp add: ensure_restored_def)
next
  assume ne: "purged \<noteq> []" and p: "0 \<le> poll"
    and a: "\<forall>i<k. str_upper (remote i) \<noteq> ''READY'' \<and> str_upper (remote i) \<noteq> ''EXPIRED''"
    and b: "\<forall>j. 0 < j \<and> j \<le> k \<longrightarrow> int j * poll < maxw"
    and e: "str_upper (remote k) = ''EXPIRED''"
  have "poll_loop remote poll maxw 0 0 = poll_loop remote poll maxw (0 + k) (0 + int k * poll)"
    by (rule poll_loop_skip [OF p]) (use a b in simp_all)
  also have "\<dots> = Some (Expired, k + 1, int k * poll)"
    using poll_loop_expired [of remote k poll maxw "int k * poll"] e by simp
  finally show "ensure_restored purged (Some url) remote poll maxw =
      Some (Expired, k + 1, int k * poll)"
    using ne by (simp add: ensure_restored_def)
next
  assume ne: "purged \<noteq> []" and p: "0 \<le> poll"
    and a: "\<forall>i\<le>m. str_upper (remote i) \<noteq> ''READY'' \<and> str_upper (remote i) \<noteq> ''EXPIRED''"
    and b: "\<forall>j. 0 < j \<and> j \<le> m \<longrightarrow> int j * poll < maxw"
    and w: "maxw \<le> int (m + 1) * poll"
  have "poll_loop remote poll maxw 0 0 = poll_loop remote poll maxw (0 + m) (0 + int m * poll)"
    by (rule poll_loop_skip [OF p]) (use a b in simp_all)
  also have "\<dots> = Some (TimedOut, m + 1, int m * poll + poll)"
    using poll_loop_timeout [of remote m poll maxw "int m * poll"] a p w
    by (simp add: algebra_simps)
  finally show "ensure_restored purged (Some url) remote poll maxw =
        Some (TimedOut, m + 1, int (m + 1) * poll)"
    using ne by (simp add: ensure_restored_def algebra_simps)
qed

theorem restore_poll_loop_witness:
  "ensure_restored [(''ds1'', [''f13''])] (Some ''u'') remote_ready_third 600 21600 =
     Some (Ready, 3, 1200) \<and>
   ensure_restored [(''ds1'', [''f13''])] (Some ''u'') remote_expired_second 600 21600 =
     Some (Expired, 2, 600) \<and>
   ensure_restored [(''ds1'', [''f13''])] (Some ''u'') remote_pending 600 1200 =
     Some (TimedOut, 2, 1200)"
proof -
  have ne: "[(''ds1'', [''f13''])] \<noteq> ([]::idmap)" by simp
  have p: "(0::int) \<le> 600" "(2::int) * 600 < 21600" by simp_all
  have a: "ensure_restored [(''ds1'', [''f13''])] (Some ''u'') remote_ready_third 600 21600 =
     Some (Ready, 3, 2 * 600)"
    by (rule restore_poll_loop [where purged = "[(''ds1'', [''f13''])]" and poll = 600
        and maxw = 21600 and remote = remote_ready_third and url = "''u''",
        THEN conjunct1, rule_format])
      (rule ne p sample_remote_status)+
  have e1: "\<forall>i<1. str_upper (remote_expired_second i) \<noteq> ''READY'' \<and>
                  str_upper (remote_expired_second i) \<noteq> ''EXPIRED''"
    by (simp add: sample_remote_status)
  have e2: "\<forall>j. 0 < j \<and> j \<le> (1::nat) \<longrightarrow> int j * 600 < 21600"
  proof (intro allI impI)
    fix j :: nat assume "0 < j \<and> j \<le> 1"
    then have "j = 1" by linarith
    then show "int j * 600 < 21600" by simp
  qed
  have b: "ensure_restored [(''ds1'', [''f13''])] (Some ''u'') remote_expired_second 600 21600 =
     Some (Expired, 1 + 1, int 1 * 600)"
    by (rule restore_poll_loop [where purged = "[(''ds1'', [''f13''])]" and poll = 600
        and maxw = 21600 and remote = remote_expired_second and url = "''u''" and k = 1,
        THEN conjunct2, THEN conjunct1, rule_format])
      (rule ne p e1 [rule_format] e2 [rule_format] sample_remote_status | assumption)+
  have t1: "\<forall>i\<le>1. str_upper (remote_pending i) \<noteq> ''READY'' \<and>
                  str_upper (remote_pending i) \<noteq> ''EXPIRED''"
    by (simp add: sample_remote_status)
  have t2: "\<forall>j. 0 < j \<and> j \<le> (1::nat) \<longrightarrow> int j * 600 < 1200"
  proof (intro allI impI)
    fix j :: nat assume "0 < j \<and> j \<le> 1"
    then have "j = 1" by linarith
    then show "int j * 600 < 1200" by simp
  qed
  have t3: "(1200::int) \<le> int (1 + 1) * 600" by simp
  have c: "ensure_restored [(''ds1'', [''f13''])] (Some ''u'') remote_pending 600 1200 =
     Some (TimedOut, 1 + 1, int (1 + 1) * 600)"
    by (rule restore_poll_loop [where purged = "[(''ds1'', [''f13''])]" and poll = 600
        and maxw = 1200 and remote = remote_pending and url = "''u''" and m = 1,
        THEN conjunct2, THEN conjunct2, rule_format])
      (rule ne p t1 [rule_format] t2 [rule_format] t3 | assumption)+
  show ?thesis using a b c by simp
qed

end
